theory Spec2Isabelle
  imports Main
begin

section \<open>Data model of the DSPatch engine (src/src/Component.cpp)\<close>

text \<open>
  The enum \<open>internal::Component::TickStatus\<close> and the public enum
  \<open>Component::ProcessOrder\<close>.
\<close>

datatype TickStatus = NotTicked | TickStarted | Ticking

datatype ProcessOrder = OutOfOrder | InOrder

text \<open>
  Why a call of the engine does not return normally in this sequential embedding:
  \<open>Blocked\<close> is a wait that only another thread could end (a release flag that is not
  set, a pool task that has not run); \<open>OutOfRange\<close> is an index outside a vector or a
  component reference outside the store, which is undefined behaviour in C++.
\<close>

datatype stop = Blocked | OutOfRange

subsection \<open>SignalBus\<close>

text \<open>
  Modelled from the spec: the class \<open>SignalBus\<close> (include/dspatch/SignalBus.h) is not
  among the sources. Section 3 and 4.1 of the specification: a signal is a cell that is
  empty or holds a value; a bus is a fixed-width sequence of cells; \<open>set\<close> copies,
  \<open>move\<close> swaps the two cells, \<open>clear_all\<close> empties every cell and keeps the width,
  \<open>set_signal_count\<close> resizes and clears, and every operation on an index out of range
  is a silent no-op or an absent result. Indices are C++ \<open>int\<close>.
\<close>

type_synonym 'v Signal = "'v option"

type_synonym 'v SignalBus = "'v Signal list"

definition GetSignalCount :: "'v SignalBus \<Rightarrow> int" where
  "GetSignalCount bus = int (length bus)"

definition inRange :: "'v SignalBus \<Rightarrow> int \<Rightarrow> bool" where
  "inRange bus i = (0 \<le> i \<and> i < GetSignalCount bus)"

definition HasValue :: "'v SignalBus \<Rightarrow> int \<Rightarrow> bool" where
  "HasValue bus i = (inRange bus i \<and> bus ! nat i \<noteq> None)"

definition GetSignal :: "'v SignalBus \<Rightarrow> int \<Rightarrow> 'v Signal" where
  "GetSignal bus i = (if inRange bus i then bus ! nat i else None)"

definition SetSignal :: "'v SignalBus \<Rightarrow> int \<Rightarrow> 'v Signal \<Rightarrow> 'v SignalBus" where
  "SetSignal bus i sig = (if inRange bus i then bus[nat i := sig] else bus)"

text \<open>\<open>MoveSignal\<close> returns the bus and what is left in the source cell after the swap.\<close>

definition MoveSignal :: "'v SignalBus \<Rightarrow> int \<Rightarrow> 'v Signal \<Rightarrow> 'v SignalBus \<times> 'v Signal" where
  "MoveSignal bus i sig =
     (if inRange bus i then (bus[nat i := sig], bus ! nat i) else (bus, sig))"

definition ClearAllValues :: "'v SignalBus \<Rightarrow> 'v SignalBus" where
  "ClearAllValues bus = map (\<lambda>_. None) bus"

definition SetSignalCount :: "'v SignalBus \<Rightarrow> int \<Rightarrow> 'v SignalBus" where
  "SetSignalCount bus n = replicate (nat n) None"

subsection \<open>Wire, ThreadPool, Component\<close>

text \<open>
  Modelled from the spec: \<open>internal/Wire.h\<close> is not among the sources; section 3 gives
  the wire as (source, source output, destination input), and \<open>Component.cpp\<close> reads
  exactly these three fields. A component reference (\<open>Component::SPtr\<close>) is the index
  of the component in the store.
\<close>

record Wire =
  fromComponent :: nat
  fromOutput :: int
  toInput :: int

text \<open>
  Modelled from the spec: \<open>ThreadPool\<close> is not among the sources; section 2 gives it
  the two parameters read by \<open>SetThreadPool\<close>.
\<close>

record ThreadPool =
  GetBufferCount :: int
  GetThreadsPerBuffer :: int

text \<open>
  One entry of the instrumentation log: a call of \<open>Process_\<close> on a buffer, with the
  two buses as they were handed to it, the output bus as it left it, and the release
  flags of the component as they were when it was called.
\<close>

record 'v ProcessCall =
  callBuffer :: nat
  callInputs :: "'v SignalBus"
  callOutputsBefore :: "'v SignalBus"
  callOutputsAfter :: "'v SignalBus"
  callReleaseFlags :: "bool list"

text \<open>
  \<open>internal::Component\<close> together with what the public class adds: the virtual
  \<open>Process_\<close> (here \<open>Process\<close>, a function of the subclass state and the two buses, all three of which
  it may change) and the subclass state. \<open>refs\<close> holds (ref_total, ref_counter) per
  output, per buffer. \<open>feedbackWires\<close> holds pointers into \<open>inputWires\<close>, here
  positions in that list. \<open>componentThreads\<close> is modelled from the spec (section 4.4,
  \<open>internal/ComponentThread.h\<close> is not among the sources): per buffer, whether a task
  handed to the pool by \<open>TickAsync\<close> has not finished yet. The mutexes are left out.
  \<open>processLog\<close> is instrumentation: it is only ever appended to, where \<open>Process_\<close>
  is called. \<open>spuriousWake\<close> is not state of the program but a choice of the
  scheduler: whether a wait on the condition variable of the release flag of a buffer
  ends without a release, which \<open>std::condition_variable::wait\<close> is allowed to do.
  Nothing writes it.
\<close>

record ('v, 'u) Component =
  processOrder :: ProcessOrder
  bufferCount :: int
  inputBuses :: "'v SignalBus list"
  outputBuses :: "'v SignalBus list"
  refs :: "(int \<times> int) list list"
  inputWires :: "Wire list"
  componentThreads :: "bool list"
  feedbackWires :: "nat set list"
  tickStatuses :: "TickStatus list"
  releaseFlags :: "bool list"
  threadPool :: "ThreadPool option"
  Process :: "'u \<Rightarrow> 'v SignalBus \<Rightarrow> 'v SignalBus \<Rightarrow> 'u \<times> 'v SignalBus \<times> 'v SignalBus"
  userState :: 'u
  processLog :: "'v ProcessCall list"
  spuriousWake :: "nat \<Rightarrow> bool"

type_synonym ('v, 'u) store = "('v, 'u) Component list"

section \<open>Fan-out with reference counting\<close>

text \<open>
  \<open>internal::Component::GetOutput\<close>, lines 484-520. The destination bus is passed by
  reference in the source; here it is passed in and returned. Both arms of the outer
  conditional do the same thing to the data, the first under the mutex of the cell.
\<close>

definition setRef :: "('v, 'u) Component \<Rightarrow> nat \<Rightarrow> int \<Rightarrow> int \<times> int \<Rightarrow> ('v, 'u) Component" where
  "setRef k bufferNo output r =
     k\<lparr>refs := (refs k)[bufferNo := (refs k ! bufferNo)[nat output := r]]\<rparr>"

definition setOutputCell :: "('v, 'u) Component \<Rightarrow> nat \<Rightarrow> int \<Rightarrow> 'v Signal \<Rightarrow> ('v, 'u) Component" where
  "setOutputCell k bufferNo output sig =
     k\<lparr>outputBuses := (outputBuses k)[bufferNo := (outputBuses k ! bufferNo)[nat output := sig]]\<rparr>"

definition moveOut :: "('v, 'u) Component \<Rightarrow> nat \<Rightarrow> int \<Rightarrow> int \<Rightarrow> 'v SignalBus
    \<Rightarrow> ('v, 'u) Component \<times> 'v SignalBus" where
  "moveOut k bufferNo fromOut toIn toBus =
     (let (toBus', left) = MoveSignal toBus toIn (GetSignal (outputBuses k ! bufferNo) fromOut)
      in (setOutputCell k bufferNo fromOut left, toBus'))"

definition GetOutput :: "('v, 'u) Component \<Rightarrow> nat \<Rightarrow> int \<Rightarrow> int \<Rightarrow> 'v SignalBus
    \<Rightarrow> ('v, 'u) Component \<times> 'v SignalBus" where
  "GetOutput k bufferNo fromOut toIn toBus =
     (if \<not> HasValue (outputBuses k ! bufferNo) fromOut then (k, toBus)
      else
        let signal = GetSignal (outputBuses k ! bufferNo) fromOut;
            ref = refs k ! bufferNo ! nat fromOut
        in if threadPool k \<noteq> None \<and> fst ref > 1 then
             (if snd ref + 1 \<noteq> fst ref
              then (setRef k bufferNo fromOut (fst ref, snd ref + 1),
                    SetSignal toBus toIn signal)
              else moveOut (setRef k bufferNo fromOut (fst ref, 0))
                     bufferNo fromOut toIn toBus)
           else if snd ref + 1 \<noteq> fst ref
           then (setRef k bufferNo fromOut (fst ref, snd ref + 1),
                 SetSignal toBus toIn signal)
           else moveOut (setRef k bufferNo fromOut (fst ref, 0))
                  bufferNo fromOut toIn toBus)"

section \<open>Wiring\<close>

text \<open>
  \<open>internal::Component::IncRefs\<close> and \<open>DecRefs\<close>, lines 522-536: the total of one
  output, in every buffer. The source indexes each row with \<open>output\<close> unchecked; an
  index outside a row is \<open>OutOfRange\<close>.
\<close>

definition addRef :: "int \<Rightarrow> int \<Rightarrow> (int \<times> int) list \<Rightarrow> (int \<times> int) list" where
  "addRef d output ref = ref[nat output := (fst (ref ! nat output) + d, snd (ref ! nat output))]"

definition rowsHave :: "(int \<times> int) list list \<Rightarrow> int \<Rightarrow> bool" where
  "rowsHave rs output = list_all (\<lambda>ref. 0 \<le> output \<and> output < int (length ref)) rs"

definition IncRefs :: "('v, 'u) Component \<Rightarrow> int \<Rightarrow> stop + ('v, 'u) Component" where
  "IncRefs k output =
     (if rowsHave (refs k) output then Inr (k\<lparr>refs := map (addRef 1 output) (refs k)\<rparr>)
      else Inl OutOfRange)"

definition DecRefs :: "('v, 'u) Component \<Rightarrow> int \<Rightarrow> stop + ('v, 'u) Component" where
  "DecRefs k output =
     (if rowsHave (refs k) output then Inr (k\<lparr>refs := map (addRef (- 1) output) (refs k)\<rparr>)
      else Inl OutOfRange)"

definition GetInputCount :: "('v, 'u) Component \<Rightarrow> int" where
  "GetInputCount k = GetSignalCount (inputBuses k ! 0)"

definition GetOutputCount :: "('v, 'u) Component \<Rightarrow> int" where
  "GetOutputCount k = GetSignalCount (outputBuses k ! 0)"

definition setInputWires :: "('v, 'u) store \<Rightarrow> nat \<Rightarrow> Wire list \<Rightarrow> ('v, 'u) store" where
  "setInputWires s this ws = s[this := (s ! this)\<lparr>inputWires := ws\<rparr>]"

text \<open>
  \<open>Component::DisconnectInput( int inputNo )\<close>, lines 151-166: the first wire into
  \<open>inputNo\<close>, if there is one, is taken off its source's totals and erased; the loop
  stops there. \<open>this\<close> is the component the method is called on.
\<close>

definition DisconnectInput :: "('v, 'u) store \<Rightarrow> nat \<Rightarrow> int \<Rightarrow> stop + ('v, 'u) store" where
  "DisconnectInput s this inputNo =
     (if \<not> this < length s then Inl OutOfRange
      else case find (\<lambda>w. toInput w = inputNo) (inputWires (s ! this)) of
        None \<Rightarrow> Inr s
      | Some w \<Rightarrow>
          if \<not> fromComponent w < length s then Inl OutOfRange
          else case DecRefs (s ! fromComponent w) (fromOutput w) of
            Inl e \<Rightarrow> Inl e
          | Inr k \<Rightarrow>
              let s1 = s[fromComponent w := k]
              in Inr (setInputWires s1 this (remove1 w (inputWires (s1 ! this)))))"

text \<open>
  \<open>Component::DisconnectInput( const Component::SCPtr& fromComponent )\<close>, lines 168-185.
  \<open>kept\<close> is the part of the vector before the iterator, \<open>ws\<close> the part from the
  iterator on.
\<close>

fun DisconnectInput_loop ::
  "('v, 'u) store \<Rightarrow> nat \<Rightarrow> nat \<Rightarrow> Wire list \<Rightarrow> Wire list \<Rightarrow> stop + ('v, 'u) store" where
  "DisconnectInput_loop s this src kept [] = Inr (setInputWires s this kept)"
| "DisconnectInput_loop s this src kept (w # ws) =
     (if fromComponent w = src then
        (case DecRefs (s ! src) (fromOutput w) of
           Inl e \<Rightarrow> Inl e
         | Inr k \<Rightarrow> DisconnectInput_loop (s[src := k]) this src kept ws)
      else DisconnectInput_loop s this src (kept @ [w]) ws)"

definition DisconnectInputFrom :: "('v, 'u) store \<Rightarrow> nat \<Rightarrow> nat \<Rightarrow> stop + ('v, 'u) store" where
  "DisconnectInputFrom s this src =
     (if \<not> (this < length s \<and> src < length s) then Inl OutOfRange
      else DisconnectInput_loop s this src [] (inputWires (s ! this)))"

text \<open>\<open>Component::DisconnectAllInputs\<close>, lines 187-194.\<close>

fun DisconnectAll_loop :: "('v, 'u) store \<Rightarrow> nat \<Rightarrow> int list \<Rightarrow> stop + ('v, 'u) store" where
  "DisconnectAll_loop s this [] = Inr s"
| "DisconnectAll_loop s this (i # is) =
     (case DisconnectInput s this i of
        Inl e \<Rightarrow> Inl e
      | Inr s' \<Rightarrow> DisconnectAll_loop s' this is)"

definition DisconnectAllInputs :: "('v, 'u) store \<Rightarrow> nat \<Rightarrow> stop + ('v, 'u) store" where
  "DisconnectAllInputs s this =
     (if \<not> this < length s then Inl OutOfRange
      else DisconnectAll_loop s this (map int [0 ..< nat (GetInputCount (s ! this))]))"

text \<open>
  \<open>Component::ConnectInput\<close>, lines 133-149, called on \<open>this\<close>. The arity test compares
  with \<open>>=\<close> only, as the source does.
\<close>

definition ConnectInput ::
  "('v, 'u) store \<Rightarrow> nat \<Rightarrow> nat \<Rightarrow> int \<Rightarrow> int \<Rightarrow> stop + (bool \<times> ('v, 'u) store)" where
  "ConnectInput s this src fromOut toIn =
     (if \<not> (this < length s \<and> src < length s) then Inl OutOfRange
      else if fromOut \<ge> GetOutputCount (s ! src) \<or> toIn \<ge> GetInputCount (s ! this)
      then Inr (False, s)
      else case DisconnectInput s this toIn of
        Inl e \<Rightarrow> Inl e
      | Inr s1 \<Rightarrow>
          let s2 = setInputWires s1 this (inputWires (s1 ! this) @
                     [\<lparr>fromComponent = src, fromOutput = fromOut, toInput = toIn\<rparr>])
          in case IncRefs (s2 ! src) fromOut of
            Inl e \<Rightarrow> Inl e
          | Inr k \<Rightarrow> Inr (True, s2[src := k]))"

text \<open>One wiring call, and a sequence of them run until the first that stops.\<close>

datatype wiringOp =
    Connect nat nat int int
  | Disconnect nat int
  | DisconnectFrom nat nat
  | DisconnectAll nat

fun wiringStep :: "('v, 'u) store \<Rightarrow> wiringOp \<Rightarrow> stop + ('v, 'u) store" where
  "wiringStep s (Connect this src fromOut toIn) = map_sum id snd (ConnectInput s this src fromOut toIn)"
| "wiringStep s (Disconnect this inputNo) = DisconnectInput s this inputNo"
| "wiringStep s (DisconnectFrom this src) = DisconnectInputFrom s this src"
| "wiringStep s (DisconnectAll this) = DisconnectAllInputs s this"

fun wiringRun :: "('v, 'u) store \<Rightarrow> wiringOp list \<Rightarrow> stop + ('v, 'u) store" where
  "wiringRun s [] = Inr s"
| "wiringRun s (x # xs) =
     (case wiringStep s x of Inl e \<Rightarrow> Inl e | Inr s' \<Rightarrow> wiringRun s' xs)"

text \<open>
  The number of wires recorded anywhere in the store whose source is component \<open>c\<close>
  and whose source output is \<open>output\<close>.
\<close>

definition wiresFrom :: "nat \<Rightarrow> int \<Rightarrow> Wire list \<Rightarrow> int" where
  "wiresFrom c output ws =
     int (length (filter (\<lambda>w. fromComponent w = c \<and> fromOutput w = output) ws))"

definition fanOut :: "('v, 'u) store \<Rightarrow> nat \<Rightarrow> int \<Rightarrow> int" where
  "fanOut s c output = sum_list (map (\<lambda>k. wiresFrom c output (inputWires k)) s)"

definition totalsMatch :: "('v, 'u) store \<Rightarrow> bool" where
  "totalsMatch s =
     (\<forall>c < length s. \<forall>b < length (refs (s ! c)). \<forall>output < length (refs (s ! c) ! b).
        fst (refs (s ! c) ! b ! output) = fanOut s c (int output))"

section \<open>Buffers\<close>

text \<open>\<open>std::vector::resize\<close> with the value of a default-constructed element.\<close>

definition resize :: "nat \<Rightarrow> 'a \<Rightarrow> 'a list \<Rightarrow> 'a list" where
  "resize n d xs = take n xs @ replicate (n - length xs) d"

text \<open>
  The loop "init vector values" of \<open>Component::SetThreadPool\<close>, lines 280-299, over the
  buffer numbers still to do. \<open>Setup\<close> binds the component thread to its component,
  buffer and pool, for which the model keeps no state. Resizing row \<open>i\<close> of \<open>refs\<close> to
  the size of row 0 and then assigning every pair of row 0 leaves a copy of row 0.
\<close>

fun SetThreadPool_init :: "('v, 'u) Component \<Rightarrow> nat list \<Rightarrow> ('v, 'u) Component" where
  "SetThreadPool_init k [] = k"
| "SetThreadPool_init k (i # is) =
     SetThreadPool_init
       (k\<lparr>tickStatuses := (tickStatuses k)[i := NotTicked],
          inputBuses := (inputBuses k)[i := SetSignalCount (inputBuses k ! i)
                                               (GetSignalCount (inputBuses k ! 0))],
          outputBuses := (outputBuses k)[i := SetSignalCount (outputBuses k ! i)
                                                 (GetSignalCount (outputBuses k ! 0))],
          releaseFlags := (releaseFlags k)[i := False],
          refs := (refs k)[i := refs k ! 0]\<rparr>)
       is"

text \<open>
  \<open>Component::SetThreadPool\<close>, lines 241-304. A null pool leaves \<open>p->threadPool\<close> as
  it was, as in the source.
\<close>

definition SetThreadPool :: "('v, 'u) Component \<Rightarrow> ThreadPool option \<Rightarrow> ('v, 'u) Component" where
  "SetThreadPool k pool =
     (let requested = (case pool of None \<Rightarrow> 0 | Some tp \<Rightarrow> GetBufferCount tp);
          k1 = (case pool of
                  None \<Rightarrow> k
                | Some tp \<Rightarrow>
                    k\<lparr>threadPool := (if GetThreadsPerBuffer tp \<noteq> 0 then Some tp else None)\<rparr>);
          newCount = (if requested \<le> 0 then 1 else requested);
          n = nat newCount;
          k2 = k1\<lparr>componentThreads := resize n False (componentThreads k1),
                  feedbackWires := resize n {} (feedbackWires k1),
                  tickStatuses := resize n NotTicked (tickStatuses k1),
                  inputBuses := resize n [] (inputBuses k1),
                  outputBuses := resize n [] (outputBuses k1),
                  releaseFlags := resize n False (releaseFlags k1),
                  refs := resize n [] (refs k1)\<rparr>;
          k3 = SetThreadPool_init k2 [0 ..< n]
      in k3\<lparr>releaseFlags := (releaseFlags k3)[0 := True], bufferCount := newCount\<rparr>)"

section \<open>Circuit position\<close>

text \<open>
  \<open>Component::GetCircuitPosition\<close>, lines 196-208. The source recurses with no record
  of the components it has entered, so the recursion is defined as a partial function:
  \<open>None\<close> is a call that never returns. \<open>GetCircuitPosition_loop\<close> is the loop over
  the wires still to visit, with \<open>furthestPos\<close> so far; the call on the wire's source has
  offset 1 and starts its own loop at 0.
\<close>

partial_function (option) GetCircuitPosition_loop ::
  "('v, 'u) store \<Rightarrow> Wire list \<Rightarrow> int \<Rightarrow> int option" where
  "GetCircuitPosition_loop s ws furthestPos =
     (case ws of
        [] \<Rightarrow> Some furthestPos
      | w # ws' \<Rightarrow>
          Option.bind (GetCircuitPosition_loop s (inputWires (s ! fromComponent w)) 0)
            (\<lambda>inner. let pos = 1 + inner
                      in GetCircuitPosition_loop s ws'
                           (if pos > furthestPos then pos else furthestPos)))"

definition GetCircuitPosition :: "('v, 'u) store \<Rightarrow> nat \<Rightarrow> int \<Rightarrow> int option" where
  "GetCircuitPosition s c offset =
     map_option (\<lambda>furthestPos. offset + furthestPos)
       (GetCircuitPosition_loop s (inputWires (s ! c)) 0)"

section \<open>Tick and Reset\<close>

definition setStatus :: "('v, 'u) store \<Rightarrow> nat \<Rightarrow> nat \<Rightarrow> TickStatus \<Rightarrow> ('v, 'u) store" where
  "setStatus s c b st = s[c := (s ! c)\<lparr>tickStatuses := (tickStatuses (s ! c))[b := st]\<rparr>]"

definition addFeedback :: "('v, 'u) store \<Rightarrow> nat \<Rightarrow> nat \<Rightarrow> nat \<Rightarrow> ('v, 'u) store" where
  "addFeedback s c b i =
     s[c := (s ! c)\<lparr>feedbackWires :=
                      (feedbackWires (s ! c))[b := insert i (feedbackWires (s ! c) ! b)]\<rparr>]"

definition eraseFeedback :: "('v, 'u) store \<Rightarrow> nat \<Rightarrow> nat \<Rightarrow> nat \<Rightarrow> ('v, 'u) store" where
  "eraseFeedback s c b i =
     s[c := (s ! c)\<lparr>feedbackWires :=
                      (feedbackWires (s ! c))[b := feedbackWires (s ! c) ! b - {i}]\<rparr>]"

text \<open>
  Modelled from the spec: \<open>ComponentThread::TickAsync\<close> and \<open>Wait\<close> (section 4.4) are
  not among the sources. \<open>TickAsync\<close> hands \<open>_DoTick\<close> on this buffer to the pool, which
  runs it later (\<open>poolRun\<close> below); \<open>Wait\<close> returns once that task is done, and at once
  when none was handed over.
\<close>

definition TickAsync :: "('v, 'u) store \<Rightarrow> nat \<Rightarrow> nat \<Rightarrow> ('v, 'u) store" where
  "TickAsync s c b =
     s[c := (s ! c)\<lparr>componentThreads := (componentThreads (s ! c))[b := True]\<rparr>]"

definition taskDone :: "('v, 'u) store \<Rightarrow> nat \<Rightarrow> nat \<Rightarrow> ('v, 'u) store" where
  "taskDone s c b =
     s[c := (s ! c)\<lparr>componentThreads := (componentThreads (s ! c))[b := False]\<rparr>]"

text \<open>
  The call \<open>wire.fromComponent->p->GetOutput( bufferNo, wire.fromOutput, wire.toInput,
  p->inputBuses[bufferNo] )\<close> made by component \<open>c\<close>: the source component and the
  input bus of \<open>c\<close> are written back to the store. For a wire from \<open>c\<close> to itself both
  are fields of the same component, and they are different fields.
\<close>

definition pull :: "('v, 'u) store \<Rightarrow> nat \<Rightarrow> nat \<Rightarrow> Wire \<Rightarrow> ('v, 'u) store" where
  "pull s c b w =
     (let (k, bus) = GetOutput (s ! fromComponent w) b (fromOutput w) (toInput w)
                       (inputBuses (s ! c) ! b);
          s1 = s[fromComponent w := k]
      in s1[c := (s1 ! c)\<lparr>inputBuses := (inputBuses (s1 ! c))[b := bus]\<rparr>])"

text \<open>
  \<open>internal::Component::WaitForRelease\<close>, lines 450-467. With the flag set, the flag
  is reset and the call returns. With the flag clear, the thread sleeps on the condition
  variable. The wait is not in a loop and the flag is not read again after it (lines
  462-466): whatever ends the wait, the flag is reset and the call returns. A release
  by \<open>ReleaseThread\<close> on another thread cannot end it here, since no other thread runs
  in this embedding; a wake-up without a release can, when the scheduler makes one
  (\<open>spuriousWake\<close>). Without one the call does not return: \<open>None\<close>.
\<close>

definition WaitForRelease :: "('v, 'u) Component \<Rightarrow> nat \<Rightarrow> ('v, 'u) Component option" where
  "WaitForRelease k threadNo =
     (if releaseFlags k ! threadNo
      then Some (k\<lparr>releaseFlags := (releaseFlags k)[threadNo := False]\<rparr>)
      else if spuriousWake k threadNo
      then Some (k\<lparr>releaseFlags := (releaseFlags k)[threadNo := False]\<rparr>)
      else None)"

text \<open>\<open>internal::Component::ReleaseThread\<close>, lines 469-482.\<close>

definition ReleaseThread :: "('v, 'u) Component \<Rightarrow> nat \<Rightarrow> ('v, 'u) Component" where
  "ReleaseThread k threadNo =
     (let next = (if int threadNo + 1 = bufferCount k then 0 else threadNo + 1)
      in k\<lparr>releaseFlags := (releaseFlags k)[next := True]\<rparr>)"

text \<open>
  The call \<open>Process_( p->inputBuses[bufferNo], p->outputBuses[bufferNo] )\<close>, with its
  entry in the log.
\<close>

definition callProcess :: "('v, 'u) Component \<Rightarrow> nat \<Rightarrow> ('v, 'u) Component" where
  "callProcess k b =
     (let (u, ins, outs) = Process k (userState k) (inputBuses k ! b) (outputBuses k ! b)
      in k\<lparr>userState := u,
           inputBuses := (inputBuses k)[b := ins],
           outputBuses := (outputBuses k)[b := outs],
           processLog := processLog k @
             [\<lparr>callBuffer = b, callInputs = inputBuses k ! b,
               callOutputsBefore = outputBuses k ! b, callOutputsAfter = outs,
               callReleaseFlags = releaseFlags k\<rparr>]\<rparr>)"

text \<open>
  The second half of \<open>Component::_DoTick\<close>, lines 429-447: clear the outputs, then
  \<open>Process_\<close>, between \<open>WaitForRelease\<close> and \<open>ReleaseThread\<close> for an in-order component
  with more than one buffer.
\<close>

definition clearOutputs :: "('v, 'u) Component \<Rightarrow> nat \<Rightarrow> ('v, 'u) Component" where
  "clearOutputs k b = k\<lparr>outputBuses := (outputBuses k)[b := ClearAllValues (outputBuses k ! b)]\<rparr>"

definition DoTick_process :: "('v, 'u) store \<Rightarrow> nat \<Rightarrow> nat \<Rightarrow> stop + ('v, 'u) store" where
  "DoTick_process s c b =
     (let k = clearOutputs (s ! c) b
      in if processOrder k = InOrder \<and> bufferCount k > 1 then
           (case WaitForRelease k b of
              None \<Rightarrow> Inl Blocked
            | Some k' \<Rightarrow> Inr (s[c := ReleaseThread (callProcess k' b) b]))
         else Inr (s[c := callProcess k b]))"

text \<open>
  The first half of \<open>_DoTick\<close> with a pool, lines 394-408, over the wires still to do;
  \<open>i\<close> is the position of the first of them in \<open>inputWires\<close>.
\<close>

fun DoTick_pool_loop ::
  "('v, 'u) store \<Rightarrow> nat \<Rightarrow> nat \<Rightarrow> nat \<Rightarrow> Wire list \<Rightarrow> stop + ('v, 'u) store" where
  "DoTick_pool_loop s c b i [] = Inr s"
| "DoTick_pool_loop s c b i (w # ws) =
     (if i \<notin> feedbackWires (s ! c) ! b then
        (if componentThreads (s ! fromComponent w) ! b then Inl Blocked
         else DoTick_pool_loop (pull s c b w) c b (Suc i) ws)
      else DoTick_pool_loop (pull (eraseFeedback s c b i) c b w) c b (Suc i) ws)"

text \<open>
  \<open>Component::Tick\<close>, lines 306-346, and \<open>Component::_DoTick\<close>, lines 390-448, on
  component \<open>c\<close> of the store and buffer \<open>b\<close>. \<open>Tick_loop\<close> is the loop "tick incoming
  components" of \<open>Tick\<close> with a pool (lines 317-323) and \<open>DoTick_loop\<close> the loop of
  \<open>_DoTick\<close> without one (lines 413-419), each over the wires still to do. \<open>Tick\<close>
  returns its result and the store; a component or buffer that does not exist is
  \<open>OutOfRange\<close>.
\<close>

function Tick :: "('v, 'u) store \<Rightarrow> nat \<Rightarrow> nat \<Rightarrow> stop + (bool \<times> ('v, 'u) store)"
  and Tick_loop :: "('v, 'u) store \<Rightarrow> nat \<Rightarrow> nat \<Rightarrow> nat \<Rightarrow> Wire list \<Rightarrow> stop + ('v, 'u) store"
  and DoTick :: "('v, 'u) store \<Rightarrow> nat \<Rightarrow> nat \<Rightarrow> stop + ('v, 'u) store"
  and DoTick_loop :: "('v, 'u) store \<Rightarrow> nat \<Rightarrow> nat \<Rightarrow> Wire list \<Rightarrow> stop + ('v, 'u) store"
where
  "Tick s c b =
     (if \<not> (c < length s \<and> b < length (tickStatuses (s ! c))) then Inl OutOfRange
      else if tickStatuses (s ! c) ! b = NotTicked then
        (if threadPool (s ! c) \<noteq> None then
           (case Tick_loop (setStatus s c b TickStarted) c b 0 (inputWires (s ! c)) of
              Inl e \<Rightarrow> Inl e
            | Inr s' \<Rightarrow> Inr (True, TickAsync (setStatus s' c b Ticking) c b))
         else
           (case DoTick (setStatus (setStatus s c b TickStarted) c b Ticking) c b of
              Inl e \<Rightarrow> Inl e
            | Inr s' \<Rightarrow> Inr (True, s')))
      else if tickStatuses (s ! c) ! b = TickStarted then Inr (False, s)
      else Inr (True, s))"
| "Tick_loop s c b i [] = Inr s"
| "Tick_loop s c b i (w # ws) =
     (case Tick s (fromComponent w) b of
        Inl e \<Rightarrow> Inl e
      | Inr (r, s') \<Rightarrow> Tick_loop (if r then s' else addFeedback s' c b i) c b (Suc i) ws)"
| "DoTick s c b =
     (if threadPool (s ! c) \<noteq> None then
        (case DoTick_pool_loop s c b 0 (inputWires (s ! c)) of
           Inl e \<Rightarrow> Inl e
         | Inr s' \<Rightarrow> DoTick_process s' c b)
      else
        (case DoTick_loop s c b (inputWires (s ! c)) of
           Inl e \<Rightarrow> Inl e
         | Inr s' \<Rightarrow> DoTick_process s' c b))"
| "DoTick_loop s c b [] = Inr s"
| "DoTick_loop s c b (w # ws) =
     (case Tick s (fromComponent w) b of
        Inl e \<Rightarrow> Inl e
      | Inr (r, s') \<Rightarrow> DoTick_loop (pull s' c b w) c b ws)"
  by pat_completeness auto

text \<open>
  Termination. A call of \<open>Tick\<close> that goes on to other components has first taken its
  own component out of \<open>NotTicked\<close> on this buffer, and nothing puts a component back
  before the call returns: the number of components still \<open>NotTicked\<close> on the buffer
  decreases along the recursion.
\<close>

definition statuses :: "('v, 'u) store \<Rightarrow> TickStatus list list" where
  "statuses s = map tickStatuses s"

definition notTickedSet :: "TickStatus list list \<Rightarrow> nat \<Rightarrow> nat set" where
  "notTickedSet ts b = {i. i < length ts \<and> b < length (ts ! i) \<and> ts ! i ! b = NotTicked}"

definition stLe :: "TickStatus list list \<Rightarrow> TickStatus list list \<Rightarrow> bool" where
  "stLe ts' ts = (\<forall>b. notTickedSet ts' b \<subseteq> notTickedSet ts b)"

lemma stLe_refl [simp]: "stLe ts ts"
  by (simp add: stLe_def)

lemma stLe_trans: "stLe a b \<Longrightarrow> stLe b c \<Longrightarrow> stLe a c"
  by (auto simp: stLe_def)

lemma map_update_same: "f k = f (s ! c) \<Longrightarrow> map f (s[c := k]) = map f s"
  by (simp add: map_update list_update_same_conv) (metis list_update_beyond list_update_id not_le_imp_less nth_map length_map)


lemma tickStatuses_GetOutput [simp]:
  "tickStatuses (fst (GetOutput k b fromOut toIn toBus)) = tickStatuses k"
  by (simp add: GetOutput_def Let_def setRef_def moveOut_def setOutputCell_def split: prod.splits)

lemma statuses_pull [simp]: "statuses (pull s c b w) = statuses s"
proof -
  obtain k bus where g: "GetOutput (s ! fromComponent w) b (fromOutput w) (toInput w)
      (inputBuses (s ! c) ! b) = (k, bus)"
    by (cases "GetOutput (s ! fromComponent w) b (fromOutput w) (toInput w) (inputBuses (s ! c) ! b)")
  have k: "tickStatuses k = tickStatuses (s ! fromComponent w)"
    using tickStatuses_GetOutput [of "s ! fromComponent w" b "fromOutput w" "toInput w"
        "inputBuses (s ! c) ! b"] g by simp
  have 1: "map tickStatuses (s[fromComponent w := k]) = map tickStatuses s"
    by (rule map_update_same) (rule k)
  show ?thesis
    unfolding statuses_def pull_def g Let_def prod.case
    by (subst map_update_same) (simp_all add: 1)
qed

lemma statuses_addFeedback [simp]: "statuses (addFeedback s c b i) = statuses s"
  by (simp add: statuses_def addFeedback_def map_update_same)

lemma statuses_eraseFeedback [simp]: "statuses (eraseFeedback s c b i) = statuses s"
  by (simp add: statuses_def eraseFeedback_def map_update_same)

lemma statuses_TickAsync [simp]: "statuses (TickAsync s c b) = statuses s"
  by (simp add: statuses_def TickAsync_def map_update_same)

lemma tickStatuses_callProcess [simp]: "tickStatuses (callProcess k b) = tickStatuses k"
  by (simp add: callProcess_def Let_def split: prod.splits)

lemma statuses_DoTick_process:
  "DoTick_process s c b = Inr s' \<Longrightarrow> statuses s' = statuses s"
  by (auto simp: DoTick_process_def Let_def statuses_def clearOutputs_def WaitForRelease_def
      ReleaseThread_def map_update_same split: option.splits if_splits)

lemma statuses_DoTick_pool_loop:
  "DoTick_pool_loop s c b i ws = Inr s' \<Longrightarrow> statuses s' = statuses s"
  by (induction s c b i ws rule: DoTick_pool_loop.induct) (auto split: if_splits)

lemma statuses_setStatus:
  "statuses (setStatus s c b st) = (statuses s)[c := (statuses s ! c)[b := st]]"
  by (cases "c < length s") (simp_all add: statuses_def setStatus_def map_update list_update_beyond)

lemma stLe_setStatus: "st \<noteq> NotTicked \<Longrightarrow> stLe (statuses (setStatus s c b st)) (statuses s)"
proof -
  have "i \<in> notTickedSet (statuses (setStatus s c b st)) b' \<Longrightarrow> i \<in> notTickedSet (statuses s) b'"
    if "st \<noteq> NotTicked" for i b'
    using that
    by (cases "i = c"; cases "b' = b")
      (auto simp: notTickedSet_def statuses_setStatus nth_list_update)
  then show "st \<noteq> NotTicked \<Longrightarrow> ?thesis"
    unfolding stLe_def by blast
qed

lemma Tick_stLe:
  shows "Tick_Tick_loop_DoTick_DoTick_loop_dom (Inl (Inl (s, c, b))) \<Longrightarrow>
           Tick s c b = Inr (r, s') \<Longrightarrow> stLe (statuses s') (statuses s)"
    and "Tick_Tick_loop_DoTick_DoTick_loop_dom (Inl (Inr (s, c, b, i, ws))) \<Longrightarrow>
           Tick_loop s c b i ws = Inr s' \<Longrightarrow> stLe (statuses s') (statuses s)"
    and "Tick_Tick_loop_DoTick_DoTick_loop_dom (Inr (Inl (s, c, b))) \<Longrightarrow>
           DoTick s c b = Inr s' \<Longrightarrow> stLe (statuses s') (statuses s)"
    and "Tick_Tick_loop_DoTick_DoTick_loop_dom (Inr (Inr (s, c, b, ws))) \<Longrightarrow>
           DoTick_loop s c b ws = Inr s' \<Longrightarrow> stLe (statuses s') (statuses s)"
proof (induct arbitrary: r s' and s' and s' and s' rule: Tick_Tick_loop_DoTick_DoTick_loop.pinduct)
  case (1 s c b)
  note dom = "1.hyps"(1)
  show ?case
  proof (cases "c < length s \<and> b < length (tickStatuses (s ! c))")
    case False
    with "1.prems" dom show ?thesis by (simp add: Tick.psimps)
  next
    case inb: True
    show ?thesis
    proof (cases "tickStatuses (s ! c) ! b = NotTicked")
      case False
      with "1.prems" dom inb show ?thesis by (auto simp: Tick.psimps split: if_splits)
    next
      case nt: True
      show ?thesis
      proof (cases "threadPool (s ! c) \<noteq> None")
        case True
        with "1.prems" dom inb nt obtain s2 where
          s2: "Tick_loop (setStatus s c b TickStarted) c b 0 (inputWires (s ! c)) = Inr s2"
          and s': "s' = TickAsync (setStatus s2 c b Ticking) c b"
          by (auto simp: Tick.psimps split: sum.splits)
        have "stLe (statuses s2) (statuses (setStatus s c b TickStarted))"
          using "1.hyps"(2) inb nt True s2 by blast
        then have "stLe (statuses s2) (statuses s)"
          by (rule stLe_trans) (simp add: stLe_setStatus)
        moreover have "stLe (statuses s') (statuses s2)"
          by (simp add: s' stLe_setStatus)
        ultimately show ?thesis by (blast intro: stLe_trans)
      next
        case False
        with "1.prems" dom inb nt have
          s3: "DoTick (setStatus (setStatus s c b TickStarted) c b Ticking) c b = Inr s'"
          by (auto simp: Tick.psimps split: sum.splits)
        have "stLe (statuses s') (statuses (setStatus (setStatus s c b TickStarted) c b Ticking))"
          using "1.hyps"(3) inb nt False s3 by blast
        then show ?thesis
          by (blast intro: stLe_trans stLe_setStatus TickStatus.distinct)
      qed
    qed
  qed
next
  case (2 s c b i)
  then show ?case by (simp add: Tick_loop.psimps)
next
  case (3 s c b i w ws)
  from "3.prems" "3.hyps"(1) obtain r1 s1 where
    t: "Tick s (fromComponent w) b = Inr (r1, s1)"
    and l: "Tick_loop (if r1 then s1 else addFeedback s1 c b i) c b (Suc i) ws = Inr s'"
    by (auto simp: Tick_loop.psimps split: sum.splits)
  have "stLe (statuses s1) (statuses s)"
    using "3.hyps"(2) t by blast
  moreover have "stLe (statuses s') (statuses (if r1 then s1 else addFeedback s1 c b i))"
    using "3.hyps"(3) [OF t refl l] .
  ultimately show ?case
    by (cases r1) (auto intro: stLe_trans)
next
  case (4 s c b)
  show ?case
  proof (cases "threadPool (s ! c) \<noteq> None")
    case True
    with "4.prems" "4.hyps"(1) obtain s1 where
      "DoTick_pool_loop s c b 0 (inputWires (s ! c)) = Inr s1" "DoTick_process s1 c b = Inr s'"
      by (auto simp: DoTick.psimps split: sum.splits)
    then show ?thesis
      by (simp add: statuses_DoTick_process statuses_DoTick_pool_loop)
  next
    case False
    with "4.prems" "4.hyps"(1) obtain s1 where
      l: "DoTick_loop s c b (inputWires (s ! c)) = Inr s1" and p: "DoTick_process s1 c b = Inr s'"
      by (auto simp: DoTick.psimps split: sum.splits)
    have "stLe (statuses s1) (statuses s)"
      using "4.hyps"(2) False l by blast
    then show ?thesis
      by (simp add: statuses_DoTick_process [OF p])
  qed
next
  case (5 s c b)
  then show ?case by (simp add: DoTick_loop.psimps)
next
  case (6 s c b w ws)
  from "6.prems" "6.hyps"(1) obtain r1 s1 where
    t: "Tick s (fromComponent w) b = Inr (r1, s1)"
    and l: "DoTick_loop (pull s1 c b w) c b ws = Inr s'"
    by (auto simp: DoTick_loop.psimps split: sum.splits)
  have "stLe (statuses s1) (statuses s)"
    using "6.hyps"(2) t by blast
  moreover have "stLe (statuses s') (statuses (pull s1 c b w))"
    using "6.hyps"(3) [OF t refl l] .
  ultimately show ?case
    by (auto intro: stLe_trans)
qed


definition notTickedCount :: "('v, 'u) store \<Rightarrow> nat \<Rightarrow> nat" where
  "notTickedCount s b = card (notTickedSet (statuses s) b)"

lemma finite_notTickedSet [simp]: "finite (notTickedSet ts b)"
  by (simp add: notTickedSet_def)

lemma stLe_count: "stLe (statuses s') (statuses s) \<Longrightarrow> notTickedCount s' b \<le> notTickedCount s b"
  by (simp add: stLe_def notTickedCount_def card_mono)

lemma setStatus_count:
  assumes "c < length s" and "b < length (tickStatuses (s ! c))"
    and "tickStatuses (s ! c) ! b = NotTicked" and "st \<noteq> NotTicked"
  shows "notTickedCount (setStatus s c b st) b < notTickedCount s b"
proof -
  have "c \<in> notTickedSet (statuses s) b"
    using assms by (simp add: notTickedSet_def statuses_def)
  moreover have "c \<notin> notTickedSet (statuses (setStatus s c b st)) b"
    using assms by (simp add: notTickedSet_def setStatus_def statuses_def)
  moreover have "notTickedSet (statuses (setStatus s c b st)) b \<subseteq> notTickedSet (statuses s) b"
    using stLe_setStatus [OF assms(4), of s c b] unfolding stLe_def by blast
  ultimately show ?thesis
    unfolding notTickedCount_def by (intro psubset_card_mono) auto
qed

definition tickRank1 ::
  "(('v, 'u) store \<times> nat \<times> nat + ('v, 'u) store \<times> nat \<times> nat \<times> nat \<times> Wire list) +
   (('v, 'u) store \<times> nat \<times> nat + ('v, 'u) store \<times> nat \<times> nat \<times> Wire list) \<Rightarrow> nat" where
  "tickRank1 x =
     (case x of
        Inl (Inl (s, c, b)) \<Rightarrow> notTickedCount s b
      | Inl (Inr (s, c, b, i, ws)) \<Rightarrow> notTickedCount s b
      | Inr (Inl (s, c, b)) \<Rightarrow> notTickedCount s b
      | Inr (Inr (s, c, b, ws)) \<Rightarrow> notTickedCount s b)"

definition tickRank2 ::
  "(('v, 'u) store \<times> nat \<times> nat + ('v, 'u) store \<times> nat \<times> nat \<times> nat \<times> Wire list) +
   (('v, 'u) store \<times> nat \<times> nat + ('v, 'u) store \<times> nat \<times> nat \<times> Wire list) \<Rightarrow> nat" where
  "tickRank2 x =
     (case x of
        Inl (Inl (s, c, b)) \<Rightarrow> 0
      | Inl (Inr (s, c, b, i, ws)) \<Rightarrow> Suc (length ws)
      | Inr (Inl (s, c, b)) \<Rightarrow> Suc (Suc (length (inputWires (s ! c))))
      | Inr (Inr (s, c, b, ws)) \<Rightarrow> Suc (length ws))"

lemma setStatus_twice_count:
  assumes "c < length s" and "b < length (tickStatuses (s ! c))"
    and "tickStatuses (s ! c) ! b = NotTicked"
  shows "notTickedCount (setStatus (setStatus s c b TickStarted) c b Ticking) b < notTickedCount s b"
proof -
  have "notTickedCount (setStatus (setStatus s c b TickStarted) c b Ticking) b
      \<le> notTickedCount (setStatus s c b TickStarted) b"
    by (rule stLe_count) (simp add: stLe_setStatus)
  also have "\<dots> < notTickedCount s b"
    using assms by (simp add: setStatus_count)
  finally show ?thesis .
qed

lemma Tick_count:
  assumes "Tick_Tick_loop_DoTick_DoTick_loop_dom (Inl (Inl (s, c, b)))"
    and "Tick s c b = Inr (r, s')"
  shows "notTickedCount s' b' \<le> notTickedCount s b'"
  using Tick_stLe(1) [OF assms] by (rule stLe_count)

termination Tick
proof (relation "measures [tickRank1, tickRank2]", goal_cases)
  case 1
  show ?case by simp
next
  case (2 s c b)
  then show ?case by (simp add: tickRank1_def setStatus_count)
next
  case (3 s c b)
  then show ?case by (simp add: tickRank1_def setStatus_twice_count)
next
  case (4 s c b i w ws)
  show ?case by (simp add: tickRank1_def tickRank2_def)
next
  case (5 s c b i w ws ba x y)
  then have "notTickedCount y b \<le> notTickedCount s b"
    using Tick_count [of s "fromComponent w" b x y b] by simp
  moreover have "notTickedCount (addFeedback y c b i) b = notTickedCount y b"
    by (simp add: notTickedCount_def)
  ultimately show ?case
    by (auto simp: tickRank1_def tickRank2_def)
next
  case (6 s c b)
  show ?case by (simp add: tickRank1_def tickRank2_def)
next
  case (7 s c b w ws)
  show ?case by (simp add: tickRank1_def tickRank2_def)
next
  case (8 s c b w ws ba x y)
  then have "notTickedCount y b \<le> notTickedCount s b"
    using Tick_count [of s "fromComponent w" b x y b] by simp
  moreover have "notTickedCount (pull y c b w) b = notTickedCount y b"
    by (simp add: notTickedCount_def)
  ultimately show ?case
    by (auto simp: tickRank1_def tickRank2_def)
qed

text \<open>
  \<open>Component::Reset\<close>, lines 348-358. \<open>Wait\<close> on a task that the pool has not finished
  does not return in this embedding.
\<close>

definition Reset :: "('v, 'u) store \<Rightarrow> nat \<Rightarrow> nat \<Rightarrow> stop + ('v, 'u) store" where
  "Reset s c b =
     (if componentThreads (s ! c) ! b then Inl Blocked
      else Inr (s[c := (s ! c)
             \<lparr>inputBuses := (inputBuses (s ! c))[b := ClearAllValues (inputBuses (s ! c) ! b)],
              tickStatuses := (tickStatuses (s ! c))[b := NotTicked]\<rparr>]))"

text \<open>
  Modelled from the spec: the pool (section 4.4 and 4.7) is not among the sources. A
  worker takes the task of component \<open>c\<close> on buffer \<open>b\<close>, runs \<open>_DoTick\<close> and marks
  the task done.
\<close>

definition poolRun :: "('v, 'u) store \<Rightarrow> nat \<Rightarrow> nat \<Rightarrow> stop + ('v, 'u) store" where
  "poolRun s c b =
     (case DoTick s c b of Inl e \<Rightarrow> Inl e | Inr s' \<Rightarrow> Inr (taskDone s' c b))"

section \<open>The circuit's tick\<close>





section \<open>Construction\<close>

text \<open>
  \<open>Component::SetInputCount_\<close> and \<open>Component::SetOutputCount_\<close>, lines 360-388 (the
  names of the signals are left out), and the constructor, lines 120-124, which starts
  from empty vectors and calls \<open>SetThreadPool( nullptr )\<close>.
\<close>

definition SetInputCount :: "('v, 'u) Component \<Rightarrow> int \<Rightarrow> ('v, 'u) Component" where
  "SetInputCount k inputCount =
     k\<lparr>inputBuses := map (\<lambda>inputBus. SetSignalCount inputBus inputCount) (inputBuses k)\<rparr>"

definition SetOutputCount :: "('v, 'u) Component \<Rightarrow> int \<Rightarrow> ('v, 'u) Component" where
  "SetOutputCount k outputCount =
     k\<lparr>outputBuses := map (\<lambda>outputBus. SetSignalCount outputBus outputCount) (outputBuses k),
       refs := map (resize (nat outputCount) (0, 0)) (refs k)\<rparr>"

definition newComponent ::
  "ProcessOrder \<Rightarrow> ('u \<Rightarrow> 'v SignalBus \<Rightarrow> 'v SignalBus \<Rightarrow> 'u \<times> 'v SignalBus \<times> 'v SignalBus)
     \<Rightarrow> 'u \<Rightarrow> ('v, 'u) Component" where
  "newComponent order proc u =
     SetThreadPool
       \<lparr>processOrder = order, bufferCount = 0, inputBuses = [], outputBuses = [], refs = [],
        inputWires = [], componentThreads = [], feedbackWires = [], tickStatuses = [],
        releaseFlags = [], threadPool = None, Process = proc, userState = u, processLog = [],
        spuriousWake = (\<lambda>b. False)\<rparr>
       None"

text \<open>
  The test component \<open>PassThrough\<close> (components/PassThrough.h, printed at the end of
  src/tests/main.cpp, l.1336-1361): one input, one output, out
  of order; \<open>Process_\<close> moves the input signal to the output when the input holds a
  value.
\<close>

definition PassThrough_Process ::
  "unit \<Rightarrow> int SignalBus \<Rightarrow> int SignalBus \<Rightarrow> unit \<times> int SignalBus \<times> int SignalBus" where
  "PassThrough_Process u inputs outputs =
     (if HasValue inputs 0 then
        (let (outputs', left) = MoveSignal outputs 0 (GetSignal inputs 0)
         in (u, inputs[0 := left], outputs'))
      else (u, inputs, outputs))"

definition PassThrough :: "(int, unit) Component" where
  "PassThrough = SetOutputCount (SetInputCount (newComponent OutOfOrder PassThrough_Process ()) 1) 1"

section \<open>States in which a tick runs through\<close>

text \<open>
  \<open>canProcess\<close>: the component does not have to wait for its turn on buffer \<open>b\<close>.
  \<open>tickable\<close>: every component has buffer \<open>b\<close>, every wire comes from a component of
  the store, and no component that is still to be ticked would wait for its turn.
  \<open>keeps\<close> relates the store before a call to the store after it: the wiring and the
  configuration are the same, a component that was not \<open>NotTicked\<close> has the status and
  the release flags it had, and a component that is \<open>NotTicked\<close> afterwards has the
  release flags it had.
\<close>

definition canProcess :: "('v, 'u) Component \<Rightarrow> nat \<Rightarrow> bool" where
  "canProcess k b = (processOrder k = InOrder \<and> bufferCount k > 1 \<longrightarrow> releaseFlags k ! b)"

definition tickable :: "('v, 'u) store \<Rightarrow> nat \<Rightarrow> bool" where
  "tickable s b =
     (\<forall>i < length s.
        b < length (tickStatuses (s ! i)) \<and>
        (\<forall>w \<in> set (inputWires (s ! i)). fromComponent w < length s) \<and>
        (tickStatuses (s ! i) ! b = NotTicked \<longrightarrow> canProcess (s ! i) b))"

definition keepsC :: "nat \<Rightarrow> ('v, 'u) Component \<Rightarrow> ('v, 'u) Component \<Rightarrow> bool" where
  "keepsC b k k' =
     (inputWires k' = inputWires k \<and> processOrder k' = processOrder k \<and>
      bufferCount k' = bufferCount k \<and> threadPool k' = threadPool k \<and>
      length (tickStatuses k') = length (tickStatuses k) \<and>
      (tickStatuses k ! b \<noteq> NotTicked \<longrightarrow>
         tickStatuses k' ! b = tickStatuses k ! b \<and> releaseFlags k' = releaseFlags k) \<and>
      (tickStatuses k' ! b = NotTicked \<longrightarrow> releaseFlags k' = releaseFlags k))"

definition keeps :: "nat \<Rightarrow> ('v, 'u) store \<Rightarrow> ('v, 'u) store \<Rightarrow> bool" where
  "keeps b s s' = (length s' = length s \<and> (\<forall>i < length s. keepsC b (s ! i) (s' ! i)))"

declare Tick.simps [simp del] DoTick.simps [simp del]

lemma keepsC_refl [simp]: "keepsC b k k"
  by (simp add: keepsC_def)

lemma keepsC_trans: "keepsC b k1 k2 \<Longrightarrow> keepsC b k2 k3 \<Longrightarrow> keepsC b k1 k3"
  unfolding keepsC_def by (cases "tickStatuses k1 ! b = NotTicked"; cases "tickStatuses k2 ! b = NotTicked"; cases "tickStatuses k3 ! b = NotTicked") auto

lemma keeps_refl [simp]: "keeps b s s"
  by (simp add: keeps_def)

lemma keeps_trans: "keeps b s1 s2 \<Longrightarrow> keeps b s2 s3 \<Longrightarrow> keeps b s1 s3"
  unfolding keeps_def by (metis keepsC_trans)

lemma keeps_update2:
  "keeps b s s1 \<Longrightarrow> (c < length s \<Longrightarrow> keepsC b (s ! c) k) \<Longrightarrow> keeps b s (s1[c := k])"
  unfolding keeps_def
proof (intro conjI allI impI)
  fix i
  assume a: "length s1 = length s \<and> (\<forall>i<length s. keepsC b (s ! i) (s1 ! i))"
    and k: "c < length s \<Longrightarrow> keepsC b (s ! c) k" and i: "i < length s"
  show "keepsC b (s ! i) (s1[c := k] ! i)"
  proof (cases "i = c")
    case True
    with a k i show ?thesis by simp
  next
    case False
    with a i show ?thesis by simp
  qed
qed simp

lemma keeps_update: "keepsC b (s ! c) k \<Longrightarrow> keeps b s (s[c := k])"
  by (rule keeps_update2) simp_all

lemma keeps_tickable: "tickable s b \<Longrightarrow> keeps b s s' \<Longrightarrow> tickable s' b"
  unfolding tickable_def keeps_def keepsC_def canProcess_def
  by (metis)


lemma keepsC_GetOutput [simp]: "keepsC b k (fst (GetOutput k b' fromOut toIn toBus))"
  by (simp add: keepsC_def GetOutput_def Let_def setRef_def moveOut_def setOutputCell_def
      split: prod.splits)

lemma keeps_pull [simp]: "keeps b s (pull s c b' w)"
proof -
  obtain k bus where g: "GetOutput (s ! fromComponent w) b' (fromOutput w) (toInput w)
      (inputBuses (s ! c) ! b') = (k, bus)"
    by (cases "GetOutput (s ! fromComponent w) b' (fromOutput w) (toInput w) (inputBuses (s ! c) ! b')")
  have "keepsC b (s ! fromComponent w) k"
    using keepsC_GetOutput [of b "s ! fromComponent w" b' "fromOutput w" "toInput w"
        "inputBuses (s ! c) ! b'"] g by simp
  then have 1: "keeps b s (s[fromComponent w := k])"
    by (rule keeps_update)
  have 2: "keeps b (s[fromComponent w := k])
      ((s[fromComponent w := k])[c := (s[fromComponent w := k] ! c)
         \<lparr>inputBuses := (inputBuses (s[fromComponent w := k] ! c))[b' := bus]\<rparr>])"
    by (rule keeps_update) (simp add: keepsC_def)
  show ?thesis
    unfolding pull_def g Let_def prod.case
    using 1 2 by (rule keeps_trans)
qed

lemma keeps_addFeedback [simp]: "keeps b s (addFeedback s c b' i)"
  unfolding addFeedback_def by (rule keeps_update) (simp add: keepsC_def)

lemma keeps_TickAsync [simp]: "keeps b s (TickAsync s c b' )"
  unfolding TickAsync_def by (rule keeps_update) (simp add: keepsC_def)

lemma keeps_setStatus:
  "tickStatuses (s ! c) ! b = NotTicked \<Longrightarrow> st \<noteq> NotTicked \<Longrightarrow> keeps b s (setStatus s c b st)"
  unfolding setStatus_def
  by (rule keeps_update) (auto simp: keepsC_def nth_list_update)

lemma keeps_setStatus_later:
  assumes "keeps b s s1" and "tickStatuses (s ! c) ! b = NotTicked" and "st \<noteq> NotTicked"
    and "b < length (tickStatuses (s ! c))"
  shows "keeps b s (setStatus s1 c b st)"
  unfolding setStatus_def
proof (rule keeps_update2 [OF assms(1)])
  assume "c < length s"
  then have "keepsC b (s ! c) (s1 ! c)"
    using assms(1) by (simp add: keeps_def)
  then show "keepsC b (s ! c) ((s1 ! c)\<lparr>tickStatuses := (tickStatuses (s1 ! c))[b := st]\<rparr>)"
    using assms(2-4) by (simp add: keepsC_def)
qed

lemma keepsC_callProcess:
  "inputWires (callProcess k b) = inputWires k \<and> processOrder (callProcess k b) = processOrder k \<and>
   bufferCount (callProcess k b) = bufferCount k \<and> threadPool (callProcess k b) = threadPool k \<and>
   tickStatuses (callProcess k b) = tickStatuses k \<and> releaseFlags (callProcess k b) = releaseFlags k"
  by (simp add: callProcess_def Let_def split: prod.splits)

lemma keeps_process_later:
  assumes "keeps b s s1" and "tickStatuses (s ! c) ! b = NotTicked"
    and "b < length (tickStatuses (s ! c))"
    and "tickStatuses (s1 ! c) ! b \<noteq> NotTicked"
    and "DoTick_process s1 c b = Inr s'"
  shows "keeps b s s'"
proof -
  let ?k = "clearOutputs (s1 ! c) b"
  have s': "s' = s1[c := callProcess ?k b] \<or>
      s' = s1[c := ReleaseThread (callProcess (?k\<lparr>releaseFlags := (releaseFlags ?k)[b := False]\<rparr>) b) b]"
    using assms(5)
    by (auto simp: DoTick_process_def Let_def WaitForRelease_def split: if_splits option.splits)
  have kc: "c < length s \<Longrightarrow> keepsC b (s ! c) (s1 ! c)"
    using assms(1) by (simp add: keeps_def)
  have 1: "c < length s \<Longrightarrow> keepsC b (s ! c) (callProcess ?k b)"
    using kc assms(2-4) by (simp add: keepsC_def keepsC_callProcess clearOutputs_def)
  have 2: "c < length s \<Longrightarrow> keepsC b (s ! c)
      (ReleaseThread (callProcess (?k\<lparr>releaseFlags := (releaseFlags ?k)[b := False]\<rparr>) b) b)"
    using kc assms(2-4)
    by (simp add: keepsC_def keepsC_callProcess clearOutputs_def ReleaseThread_def Let_def)
  from s' show ?thesis
    using keeps_update2 [OF assms(1) 1] keeps_update2 [OF assms(1) 2] by auto
qed

lemma DoTick_process_returns:
  assumes "canProcess (s ! c) b"
  shows "\<exists>s'. DoTick_process s c b = Inr s'"
  using assms
  by (auto simp: DoTick_process_def Let_def canProcess_def clearOutputs_def WaitForRelease_def)


lemma setStatus_nth:
  "c < length s \<Longrightarrow> setStatus s c b st ! c = (s ! c)\<lparr>tickStatuses := (tickStatuses (s ! c))[b := st]\<rparr>"
  by (simp add: setStatus_def)

lemma Tick_returns_aux:
  shows "tickable s b \<Longrightarrow> c < length s \<Longrightarrow>
           \<exists>s'. Tick s c b = Inr (tickStatuses (s ! c) ! b \<noteq> TickStarted, s') \<and> keeps b s s'"
    and "tickable s b \<Longrightarrow> \<forall>w \<in> set ws. fromComponent w < length s \<Longrightarrow>
           \<exists>s'. Tick_loop s c b i ws = Inr s' \<and> keeps b s s'"
    and "tickable s b \<Longrightarrow> c < length s \<Longrightarrow> threadPool (s ! c) = None \<Longrightarrow>
           \<exists>s1. DoTick_loop s c b (inputWires (s ! c)) = Inr s1 \<and> keeps b s s1 \<and>
                DoTick s c b = DoTick_process s1 c b"
    and "tickable s b \<Longrightarrow> \<forall>w \<in> set ws. fromComponent w < length s \<Longrightarrow>
           \<exists>s'. DoTick_loop s c b ws = Inr s' \<and> keeps b s s'"
proof (induct s c b and s c b i ws and s c b and s c b ws
    rule: Tick_Tick_loop_DoTick_DoTick_loop.induct)
  case (1 s c b)
  have inb: "b < length (tickStatuses (s ! c))"
    using "1.prems" by (simp add: tickable_def)
  show ?case
  proof (cases "tickStatuses (s ! c) ! b = NotTicked")
    case False
    with "1.prems" inb show ?thesis
      by (simp add: Tick.simps)
  next
    case nt: True
    let ?s1 = "setStatus s c b TickStarted"
    have k1: "keeps b s ?s1"
      using nt by (simp add: keeps_setStatus)
    show ?thesis
    proof (cases "threadPool (s ! c) \<noteq> None")
      case True
      have t1: "tickable ?s1 b"
        using "1.prems"(1) k1 by (rule keeps_tickable)
      have ws: "\<forall>w \<in> set (inputWires (s ! c)). fromComponent w < length ?s1"
        using "1.prems" by (simp add: tickable_def setStatus_def)
      obtain s2 where s2: "Tick_loop ?s1 c b 0 (inputWires (s ! c)) = Inr s2"
        and k2: "keeps b ?s1 s2"
        using "1.hyps"(1) [OF _ nt True t1 ws] "1.prems"(2) inb by auto
      have "keeps b s s2"
        using k1 k2 by (rule keeps_trans)
      then have "keeps b s (setStatus s2 c b Ticking)"
        using nt inb by (simp add: keeps_setStatus_later)
      then have "keeps b s (TickAsync (setStatus s2 c b Ticking) c b)"
        by (rule keeps_trans) simp
      then show ?thesis
        using "1.prems"(2) inb nt True s2 by (simp add: Tick.simps)
    next
      case False
      let ?s2 = "setStatus ?s1 c b Ticking"
      have k2: "keeps b s ?s2"
        using k1 nt inb by (simp add: keeps_setStatus_later)
      have t2: "tickable ?s2 b"
        using "1.prems"(1) k2 by (rule keeps_tickable)
      have c2: "c < length ?s2" and p2: "threadPool (?s2 ! c) = None"
        using "1.prems"(2) False by (simp_all add: setStatus_def)
      obtain s3 where s3: "DoTick_loop ?s2 c b (inputWires (?s2 ! c)) = Inr s3"
        and k3: "keeps b ?s2 s3" and d: "DoTick ?s2 c b = DoTick_process s3 c b"
        using "1.hyps"(2) [OF _ nt False t2 c2 p2] "1.prems"(2) inb by auto
      have st2: "tickStatuses (?s2 ! c) ! b = Ticking"
        using "1.prems"(2) inb by (simp add: setStatus_def)
      have kc: "keepsC b (?s2 ! c) (s3 ! c)"
        using k3 c2 by (simp add: keeps_def)
      have st3: "tickStatuses (s3 ! c) ! b \<noteq> NotTicked"
        using kc st2 by (simp add: keepsC_def)
      have "canProcess (s ! c) b"
        using "1.prems" nt by (simp add: tickable_def)
      then have "canProcess (?s2 ! c) b"
        using "1.prems"(2) by (simp add: canProcess_def setStatus_def)
      then have "canProcess (s3 ! c) b"
        using kc st2 by (simp add: canProcess_def keepsC_def)
      then obtain s' where s': "DoTick_process s3 c b = Inr s'"
        using DoTick_process_returns by blast
      have "keeps b s s3"
        using k2 k3 by (rule keeps_trans)
      then have "keeps b s s'"
        using nt inb st3 s' by (rule keeps_process_later)
      then show ?thesis
        using "1.prems"(2) inb nt False d s' by (simp add: Tick.simps)
    qed
  qed
next
  case (2 s c b i)
  show ?case by simp
next
  case (3 s c b i w ws)
  have w: "fromComponent w < length s"
    using "3.prems" by simp
  obtain s1 where t: "Tick s (fromComponent w) b =
      Inr (tickStatuses (s ! fromComponent w) ! b \<noteq> TickStarted, s1)"
    and k1: "keeps b s s1"
    using "3.hyps"(1) [OF "3.prems"(1) w] by blast
  let ?r = "tickStatuses (s ! fromComponent w) ! b \<noteq> TickStarted"
  let ?s2 = "if ?r then s1 else addFeedback s1 c b i"
  have k2: "keeps b s ?s2"
    using k1 by (auto intro: keeps_trans [OF k1])
  have t2: "tickable ?s2 b"
    using "3.prems"(1) k2 by (rule keeps_tickable)
  have ws: "\<forall>w \<in> set ws. fromComponent w < length ?s2"
    using "3.prems"(2) k2 by (simp add: keeps_def)
  obtain s' where l: "Tick_loop ?s2 c b (Suc i) ws = Inr s'" and k3: "keeps b ?s2 s'"
    using "3.hyps"(2) [OF t refl t2 ws] by blast
  have "keeps b s s'"
    using k2 k3 by (rule keeps_trans)
  then show ?case
    using t l by auto
next
  case (4 s c b)
  have ws: "\<forall>w \<in> set (inputWires (s ! c)). fromComponent w < length s"
    using "4.prems" by (simp add: tickable_def)
  obtain s1 where "DoTick_loop s c b (inputWires (s ! c)) = Inr s1" "keeps b s s1"
    using "4.hyps" [OF _ "4.prems"(1) ws] "4.prems"(3) by auto
  then show ?case
    using "4.prems"(3) by (auto simp: DoTick.simps)
next
  case (5 s c b)
  show ?case by simp
next
  case (6 s c b w ws)
  have w: "fromComponent w < length s"
    using "6.prems" by simp
  obtain s1 where t: "Tick s (fromComponent w) b =
      Inr (tickStatuses (s ! fromComponent w) ! b \<noteq> TickStarted, s1)"
    and k1: "keeps b s s1"
    using "6.hyps"(1) [OF "6.prems"(1) w] by blast
  have k2: "keeps b s (pull s1 c b w)"
    by (rule keeps_trans [OF k1]) simp
  have t2: "tickable (pull s1 c b w) b"
    using "6.prems"(1) k2 by (rule keeps_tickable)
  have ws: "\<forall>w' \<in> set ws. fromComponent w' < length (pull s1 c b w)"
    using "6.prems"(2) k2 by (simp add: keeps_def)
  obtain s' where l: "DoTick_loop (pull s1 c b w) c b ws = Inr s'"
    and k3: "keeps b (pull s1 c b w) s'"
    using "6.hyps"(2) [OF t refl t2 ws] by blast
  have "keeps b s s'"
    using k2 k3 by (rule keeps_trans)
  then show ?case
    using t l by auto
qed

section \<open>Wiring and the reference totals\<close>

text \<open>
  \<open>shifted\<close>: the second component has the rows of the first, with the total of one
  output moved by \<open>d\<close>. \<open>wiresValid\<close>: every wire comes from a component of the store
  and from an output that every row of that component's totals has.
\<close>

definition shifted ::
  "int \<Rightarrow> int \<Rightarrow> ('v, 'u) Component \<Rightarrow> ('v, 'u) Component \<Rightarrow> bool" where
  "shifted d output k k' =
     (length (refs k') = length (refs k) \<and>
      (\<forall>b < length (refs k). length (refs k' ! b) = length (refs k ! b) \<and>
         (\<forall>output' < length (refs k ! b).
            fst (refs k' ! b ! output') =
              fst (refs k ! b ! output') + (if int output' = output then d else 0))))"


lemma sum_list_map_update:
  fixes f :: "'a \<Rightarrow> int"
  shows "i < length s \<Longrightarrow> sum_list (map f (s[i := x])) = sum_list (map f s) - f (s ! i) + f x"
  by (induction s arbitrary: i) (auto split: nat.splits)

lemma fanOut_update:
  "i < length s \<Longrightarrow>
     fanOut (s[i := k]) c output =
       fanOut s c output - wiresFrom c output (inputWires (s ! i)) + wiresFrom c output (inputWires k)"
  by (simp add: fanOut_def sum_list_map_update)

lemma fanOut_update_same:
  "inputWires k = inputWires (s ! i) \<Longrightarrow> fanOut (s[i := k]) c output = fanOut s c output"
  by (cases "i < length s") (simp_all add: fanOut_update list_update_beyond)

lemma fanOut_setInputWires:
  "this < length s \<Longrightarrow>
     fanOut (setInputWires s this ws) c output =
       fanOut s c output - wiresFrom c output (inputWires (s ! this)) + wiresFrom c output ws"
  by (simp add: setInputWires_def fanOut_update)

lemma refs_setInputWires [simp]: "refs (setInputWires s this ws ! c) = refs (s ! c)"
  by (cases "this < length s"; cases "c = this") (simp_all add: setInputWires_def list_update_beyond)

lemma length_setInputWires [simp]: "length (setInputWires s this ws) = length s"
  by (simp add: setInputWires_def)

lemma wiresFrom_append [simp]:
  "wiresFrom c output (xs @ ys) = wiresFrom c output xs + wiresFrom c output ys"
  by (simp add: wiresFrom_def)

lemma wiresFrom_Cons:
  "wiresFrom c output (w # ws) =
     (if fromComponent w = c \<and> fromOutput w = output then 1 else 0) + wiresFrom c output ws"
  by (simp add: wiresFrom_def)

lemma wiresFrom_Nil [simp]: "wiresFrom c output [] = 0"
  by (simp add: wiresFrom_def)

lemma wiresFrom_remove1:
  "w \<in> set ws \<Longrightarrow>
     wiresFrom c output (remove1 w ws) =
       wiresFrom c output ws - (if fromComponent w = c \<and> fromOutput w = output then 1 else 0)"
  by (induction ws) (auto simp: wiresFrom_Cons)

lemma addRef_nth:
  "output' < length ref \<Longrightarrow> 0 \<le> output \<Longrightarrow>
     fst (addRef d output ref ! output') = fst (ref ! output') + (if int output' = output then d else 0)"
  by (auto simp: addRef_def nth_list_update)

lemma length_addRef [simp]: "length (addRef d output ref) = length ref"
  by (simp add: addRef_def)

lemma IncRefs_shifted: "IncRefs k output = Inr k' \<Longrightarrow> shifted 1 output k k'"
  by (auto simp: IncRefs_def shifted_def rowsHave_def list_all_length addRef_nth split: if_splits)

lemma DecRefs_shifted: "DecRefs k output = Inr k' \<Longrightarrow> shifted (- 1) output k k'"
  by (auto simp: DecRefs_def shifted_def rowsHave_def list_all_length addRef_nth split: if_splits)

lemma IncRefs_inputWires: "IncRefs k output = Inr k' \<Longrightarrow> inputWires k' = inputWires k"
  by (auto simp: IncRefs_def split: if_splits)

lemma DecRefs_inputWires: "DecRefs k output = Inr k' \<Longrightarrow> inputWires k' = inputWires k"
  by (auto simp: DecRefs_def split: if_splits)

lemma shifted_cong: "shifted d output k k' \<Longrightarrow> refs k'' = refs k' \<Longrightarrow> refs k0 = refs k
    \<Longrightarrow> shifted d output k0 k''"
  by (simp add: shifted_def)

text \<open>
  The step common to all wiring calls: the totals of \<open>src\<close> at one output move by \<open>d\<close>,
  and so does the number of wires of \<open>this\<close> from that output; nothing else changes.
\<close>

lemma totalsMatch_step:
  assumes tm: "totalsMatch s"
    and inr: "this < length s" and src: "src < length s" and len: "length s' = length s"
    and wires: "\<And>c. c < length s \<Longrightarrow> c \<noteq> this \<Longrightarrow> inputWires (s' ! c) = inputWires (s ! c)"
    and rest: "\<And>c. c < length s \<Longrightarrow> c \<noteq> src \<Longrightarrow> refs (s' ! c) = refs (s ! c)"
    and sh: "shifted d output (s ! src) (s' ! src)"
    and ws': "\<And>c output'. wiresFrom c output' (inputWires (s' ! this)) =
        wiresFrom c output' (inputWires (s ! this)) + (if c = src \<and> output' = output then d else 0)"
  shows "totalsMatch s'"
  unfolding totalsMatch_def
proof (intro allI impI)
  fix c b output'
  assume c: "c < length s'" and b: "b < length (refs (s' ! c))"
    and o: "output' < length (refs (s' ! c) ! b)"
  have c': "c < length s" using c len by simp
  have "map (\<lambda>k. wiresFrom c (int output') (inputWires k)) s' =
      map (\<lambda>k. wiresFrom c (int output') (inputWires k)) (s[this := s' ! this])"
  proof (rule nth_equalityI)
    show "length (map (\<lambda>k. wiresFrom c (int output') (inputWires k)) s') =
        length (map (\<lambda>k. wiresFrom c (int output') (inputWires k)) (s[this := s' ! this]))"
      using len by simp
    fix i
    assume "i < length (map (\<lambda>k. wiresFrom c (int output') (inputWires k)) s')"
    then have i: "i < length s" using len by simp
    show "map (\<lambda>k. wiresFrom c (int output') (inputWires k)) s' ! i =
        map (\<lambda>k. wiresFrom c (int output') (inputWires k)) (s[this := s' ! this]) ! i"
      using i len wires [of i] by (cases "i = this") simp_all
  qed
  then have "fanOut s' c (int output') = fanOut (s[this := s' ! this]) c (int output')"
    by (simp add: fanOut_def)
  then have fan: "fanOut s' c (int output') =
      fanOut s c (int output') + (if c = src \<and> int output' = output then d else 0)"
    using inr ws' [of c "int output'"] by (simp add: fanOut_update)
  show "fst (refs (s' ! c) ! b ! output') = fanOut s' c (int output')"
  proof (cases "c = src")
    case True
    have b': "b < length (refs (s ! src))"
      using b True sh by (simp add: shifted_def)
    have o': "output' < length (refs (s ! src) ! b)"
      using o b' True sh by (simp add: shifted_def)
    have "fst (refs (s' ! src) ! b ! output') =
        fst (refs (s ! src) ! b ! output') + (if int output' = output then d else 0)"
      using sh b' o' by (simp add: shifted_def)
    moreover have "fst (refs (s ! src) ! b ! output') = fanOut s src (int output')"
      using tm src b' o' by (simp add: totalsMatch_def)
    ultimately show ?thesis
      using fan True by simp
  next
    case False
    have "refs (s' ! c) = refs (s ! c)"
      using rest c' False by simp
    moreover from this have "fst (refs (s ! c) ! b ! output') = fanOut s c (int output')"
      using tm c' b o by (simp add: totalsMatch_def)
    ultimately show ?thesis
      using fan False by simp
  qed
qed

lemma setInputWires_same [simp]: "setInputWires s this (inputWires (s ! this)) = s"
  by (cases "this < length s") (simp_all add: setInputWires_def list_update_beyond)

lemma nth_setInputWires:
  "c < length s \<Longrightarrow>
     setInputWires s this ws ! c = (if c = this then (s ! this)\<lparr>inputWires := ws\<rparr> else s ! c)"
  by (simp add: setInputWires_def)

lemma DisconnectInput_totals:
  assumes "totalsMatch s" and "DisconnectInput s this inputNo = Inr s'"
  shows "totalsMatch s' \<and> length s' = length s"
proof (cases "find (\<lambda>w. toInput w = inputNo) (inputWires (s ! this))")
  case None
  with assms show ?thesis
    by (auto simp: DisconnectInput_def split: if_splits)
next
  case (Some w)
  from assms(2) Some obtain k where inr: "this < length s" and src: "fromComponent w < length s"
    and k: "DecRefs (s ! fromComponent w) (fromOutput w) = Inr k"
    and s': "s' = setInputWires (s[fromComponent w := k]) this
        (remove1 w (inputWires (s[fromComponent w := k] ! this)))"
    by (auto simp: DisconnectInput_def Let_def split: if_splits sum.splits)
  have w: "w \<in> set (inputWires (s ! this))"
    using Some by (auto simp: find_Some_iff in_set_conv_nth)
  have kw: "inputWires k = inputWires (s ! fromComponent w)"
    using k by (rule DecRefs_inputWires)
  have same: "inputWires (s[fromComponent w := k] ! this) = inputWires (s ! this)"
    using src kw by (cases "this = fromComponent w") simp_all
  have "totalsMatch s'"
  proof (rule totalsMatch_step [OF assms(1) inr src])
    show "length s' = length s" by (simp add: s')
    show "inputWires (s' ! c) = inputWires (s ! c)" if "c < length s" "c \<noteq> this" for c
      using that src kw by (cases "c = fromComponent w") (simp_all add: s' nth_setInputWires)
    show "refs (s' ! c) = refs (s ! c)" if "c < length s" "c \<noteq> fromComponent w" for c
      using that by (simp add: s')
    show "shifted (- 1) (fromOutput w) (s ! fromComponent w) (s' ! fromComponent w)"
      by (rule shifted_cong [OF DecRefs_shifted [OF k]]) (use src in \<open>simp_all add: s'\<close>)
    show "wiresFrom c output' (inputWires (s' ! this)) =
        wiresFrom c output' (inputWires (s ! this)) +
          (if c = fromComponent w \<and> output' = fromOutput w then - 1 else 0)" for c output'
      using inr w by (simp add: s' nth_setInputWires same wiresFrom_remove1)
  qed
  then show ?thesis by (simp add: s')
qed

lemma ConnectInput_totals:
  assumes "totalsMatch s" and "ConnectInput s this src fromOut toIn = Inr (r, s')"
  shows "totalsMatch s' \<and> length s' = length s"
proof (cases r)
  case False
  with assms show ?thesis
    by (auto simp: ConnectInput_def Let_def split: if_splits sum.splits)
next
  case True
  let ?w = "\<lparr>fromComponent = src, fromOutput = fromOut, toInput = toIn\<rparr>"
  from assms(2) True obtain s1 k where inr: "this < length s" and src: "src < length s"
    and s1: "DisconnectInput s this toIn = Inr s1"
    and k: "IncRefs (setInputWires s1 this (inputWires (s1 ! this) @ [?w]) ! src) fromOut = Inr k"
    and s': "s' = (setInputWires s1 this (inputWires (s1 ! this) @ [?w]))[src := k]"
    by (auto simp: ConnectInput_def Let_def split: if_splits sum.splits)
  have t1: "totalsMatch s1" and l1: "length s1 = length s"
    using DisconnectInput_totals [OF assms(1) s1] by simp_all
  let ?s2 = "setInputWires s1 this (inputWires (s1 ! this) @ [?w])"
  have kw: "inputWires k = inputWires (?s2 ! src)"
    using k by (rule IncRefs_inputWires)
  have "totalsMatch s'"
  proof (rule totalsMatch_step [OF t1])
    show "this < length s1" "src < length s1" using inr src l1 by simp_all
    show "length s' = length s1" by (simp add: s')
    show "inputWires (s' ! c) = inputWires (s1 ! c)" if "c < length s1" "c \<noteq> this" for c
      using that kw by (cases "c = src") (simp_all add: s' nth_setInputWires)
    show "refs (s' ! c) = refs (s1 ! c)" if "c < length s1" "c \<noteq> src" for c
      using that by (simp add: s')
    show "shifted 1 fromOut (s1 ! src) (s' ! src)"
      by (rule shifted_cong [OF IncRefs_shifted [OF k]]) (use src l1 in \<open>simp_all add: s'\<close>)
    show "wiresFrom c output' (inputWires (s' ! this)) =
        wiresFrom c output' (inputWires (s1 ! this)) +
          (if c = src \<and> output' = fromOut then 1 else 0)" for c output'
      using inr l1 src kw
      by (cases "this = src") (simp_all add: s' nth_setInputWires wiresFrom_Cons)
  qed
  then show ?thesis by (simp add: s' l1)
qed


lemma DisconnectInput_loop_totals:
  assumes "totalsMatch (setInputWires s this (kept @ ws))"
    and "this < length s" and "src < length s"
    and "DisconnectInput_loop s this src kept ws = Inr s'"
  shows "totalsMatch s' \<and> length s' = length s"
  using assms
proof (induction ws arbitrary: s kept)
  case Nil
  then show ?case by auto
next
  case (Cons w ws)
  show ?case
  proof (cases "fromComponent w = src")
    case False
    with Cons.prems have l: "DisconnectInput_loop s this src (kept @ [w]) ws = Inr s'"
      by simp
    have "totalsMatch (setInputWires s this ((kept @ [w]) @ ws))"
      using Cons.prems(1) by simp
    then show ?thesis
      using Cons.prems(2,3) l by (rule Cons.IH)
  next
    case True
    with Cons.prems(4) obtain k where k: "DecRefs (s ! src) (fromOutput w) = Inr k"
      and l: "DisconnectInput_loop (s[src := k]) this src kept ws = Inr s'"
      by (auto split: sum.splits)
    have kw: "inputWires k = inputWires (s ! src)"
      using k by (rule DecRefs_inputWires)
    let ?a = "setInputWires s this (kept @ w # ws)"
    let ?b = "setInputWires (s[src := k]) this (kept @ ws)"
    have "totalsMatch ?b"
    proof (rule totalsMatch_step [OF Cons.prems(1)])
      show "this < length ?a" "src < length ?a" "length ?b = length ?a"
        using Cons.prems(2,3) by simp_all
      show "inputWires (?b ! c) = inputWires (?a ! c)" if "c < length ?a" "c \<noteq> this" for c
        using that kw by (cases "c = src") (simp_all add: nth_setInputWires)
      show "refs (?b ! c) = refs (?a ! c)" if "c < length ?a" "c \<noteq> src" for c
        using that by simp
      show "shifted (- 1) (fromOutput w) (?a ! src) (?b ! src)"
        by (rule shifted_cong [OF DecRefs_shifted [OF k]])
          (use Cons.prems(3) in simp_all)
      show "wiresFrom c output' (inputWires (?b ! this)) =
          wiresFrom c output' (inputWires (?a ! this)) +
            (if c = src \<and> output' = fromOutput w then - 1 else 0)" for c output'
        using Cons.prems(2) True by (simp add: nth_setInputWires wiresFrom_Cons)
    qed
    moreover have "this < length (s[src := k])" "src < length (s[src := k])"
      using Cons.prems(2,3) by simp_all
    ultimately have "totalsMatch s' \<and> length s' = length (s[src := k])"
      using l by (rule Cons.IH)
    then show ?thesis by simp
  qed
qed

lemma DisconnectInputFrom_totals:
  assumes "totalsMatch s" and "DisconnectInputFrom s this src = Inr s'"
  shows "totalsMatch s' \<and> length s' = length s"
proof -
  from assms(2) have inr: "this < length s" "src < length s"
    and l: "DisconnectInput_loop s this src [] (inputWires (s ! this)) = Inr s'"
    by (auto simp: DisconnectInputFrom_def split: if_splits)
  have "totalsMatch (setInputWires s this ([] @ inputWires (s ! this)))"
    using assms(1) by simp
  then show ?thesis
    using inr l by (rule DisconnectInput_loop_totals)
qed

lemma DisconnectAll_loop_totals:
  "totalsMatch s \<Longrightarrow> DisconnectAll_loop s this is = Inr s' \<Longrightarrow>
     totalsMatch s' \<and> length s' = length s"
proof (induction "is" arbitrary: s)
  case Nil
  then show ?case by simp
next
  case (Cons i "is")
  from Cons.prems(2) obtain s1 where s1: "DisconnectInput s this i = Inr s1"
    and l: "DisconnectAll_loop s1 this is = Inr s'"
    by (auto split: sum.splits)
  have "totalsMatch s1 \<and> length s1 = length s"
    using Cons.prems(1) s1 by (rule DisconnectInput_totals)
  then have "totalsMatch s' \<and> length s' = length s1"
    using Cons.IH [of s1] l by blast
  then show ?case
    using \<open>totalsMatch s1 \<and> length s1 = length s\<close> by simp
qed

lemma wiringStep_totals:
  assumes "totalsMatch s" and "wiringStep s x = Inr s'"
  shows "totalsMatch s' \<and> length s' = length s"
proof (cases x)
  case (Connect dst src fromOut toIn)
  have m: "map_sum id snd (ConnectInput s dst src fromOut toIn) = Inr s'"
    using assms(2) unfolding Connect by simp
  show ?thesis
  proof (cases "ConnectInput s dst src fromOut toIn")
    case (Inl e)
    with m show ?thesis by simp
  next
    case (Inr p)
    with m have "ConnectInput s dst src fromOut toIn = Inr (fst p, s')"
      by (cases p) simp
    with assms(1) show ?thesis by (rule ConnectInput_totals)
  qed
next
  case (Disconnect dst inputNo)
  have "DisconnectInput s dst inputNo = Inr s'"
    using assms(2) unfolding Disconnect by simp
  with assms(1) show ?thesis by (rule DisconnectInput_totals)
next
  case (DisconnectFrom dst src)
  have "DisconnectInputFrom s dst src = Inr s'"
    using assms(2) unfolding DisconnectFrom by simp
  with assms(1) show ?thesis by (rule DisconnectInputFrom_totals)
next
  case (DisconnectAll dst)
  have "DisconnectAll_loop s dst (map int [0 ..< nat (GetInputCount (s ! dst))]) = Inr s'"
    using assms(2) unfolding DisconnectAll by (simp add: DisconnectAllInputs_def split: if_splits)
  with assms(1) show ?thesis by (rule DisconnectAll_loop_totals)
qed

lemma rowsHave_addRef [simp]: "rowsHave (map (addRef d output) rs) output' = rowsHave rs output'"
  by (simp add: rowsHave_def list_all_iff)


section \<open>Circuit position on stores without cycles\<close>

text \<open>
  \<open>chain s c n\<close>: a chain of \<open>n\<close> wires ends in component \<open>c\<close>. \<open>longestChain\<close>: the
  length of the longest such chain. \<open>acyclic_by\<close>: a numbering of the components that
  decreases along every wire, from destination to source.
\<close>

inductive chain :: "('v, 'u) store \<Rightarrow> nat \<Rightarrow> nat \<Rightarrow> bool" where
  chain_here: "chain s c 0"
| chain_wire: "w \<in> set (inputWires (s ! c)) \<Longrightarrow> chain s (fromComponent w) n \<Longrightarrow> chain s c (Suc n)"

definition longestChain :: "('v, 'u) store \<Rightarrow> nat \<Rightarrow> nat \<Rightarrow> bool" where
  "longestChain s c d = (chain s c d \<and> (\<forall>n. chain s c n \<longrightarrow> n \<le> d))"

definition acyclic_by :: "('v, 'u) store \<Rightarrow> (nat \<Rightarrow> nat) \<Rightarrow> bool" where
  "acyclic_by s rank =
     (\<forall>c. \<forall>w \<in> set (inputWires (s ! c)). rank (fromComponent w) < rank c)"

lemma loop_step:
  assumes "\<And>w. w \<in> set ws \<Longrightarrow>
      \<exists>d. GetCircuitPosition_loop s (inputWires (s ! fromComponent w)) 0 = Some (int d) \<and>
          longestChain s (fromComponent w) d"
  shows "\<exists>r. GetCircuitPosition_loop s ws furthestPos = Some r \<and> furthestPos \<le> r \<and>
      (r = furthestPos \<or> (\<exists>w \<in> set ws. \<exists>n. chain s (fromComponent w) n \<and> r = 1 + int n)) \<and>
      (\<forall>w \<in> set ws. \<forall>n. chain s (fromComponent w) n \<longrightarrow> 1 + int n \<le> r)"
  using assms
proof (induction ws arbitrary: furthestPos)
  case Nil
  show ?case by (subst GetCircuitPosition_loop.simps) simp
next
  case (Cons w ws)
  obtain d where d: "GetCircuitPosition_loop s (inputWires (s ! fromComponent w)) 0 = Some (int d)"
    and ld: "longestChain s (fromComponent w) d"
    using Cons.prems [of w] by auto
  let ?fp = "if furthestPos < 1 + int d then 1 + int d else furthestPos"
  obtain r where r: "GetCircuitPosition_loop s ws ?fp = Some r" and ge: "?fp \<le> r"
    and wit: "r = ?fp \<or> (\<exists>w \<in> set ws. \<exists>n. chain s (fromComponent w) n \<and> r = 1 + int n)"
    and all: "\<forall>w \<in> set ws. \<forall>n. chain s (fromComponent w) n \<longrightarrow> 1 + int n \<le> r"
    using Cons.IH [of ?fp] Cons.prems by auto
  have "GetCircuitPosition_loop s (w # ws) furthestPos = Some r"
    by (subst GetCircuitPosition_loop.simps) (simp add: d r Let_def)
  moreover have "furthestPos \<le> r"
    using ge by (simp split: if_splits)
  moreover have "r = furthestPos \<or>
      (\<exists>w' \<in> set (w # ws). \<exists>n. chain s (fromComponent w') n \<and> r = 1 + int n)"
    using wit ld by (auto simp: longestChain_def split: if_splits)
  moreover have "\<forall>w' \<in> set (w # ws). \<forall>n. chain s (fromComponent w') n \<longrightarrow> 1 + int n \<le> r"
    using all ld ge by (auto simp: longestChain_def split: if_splits)
  ultimately show ?case by blast
qed

lemma GetCircuitPosition_loop_acyclic:
  assumes "acyclic_by s rank"
  shows "\<exists>d. GetCircuitPosition_loop s (inputWires (s ! c)) 0 = Some (int d) \<and> longestChain s c d"
proof (induction "rank c" arbitrary: c rule: less_induct)
  case less
  have "\<exists>d. GetCircuitPosition_loop s (inputWires (s ! fromComponent w)) 0 = Some (int d) \<and>
      longestChain s (fromComponent w) d" if "w \<in> set (inputWires (s ! c))" for w
    using that assms less by (simp add: acyclic_by_def)
  from loop_step [of "inputWires (s ! c)" s 0, OF this]
  obtain r where r: "GetCircuitPosition_loop s (inputWires (s ! c)) 0 = Some r" and ge: "0 \<le> r"
    and wit: "r = 0 \<or> (\<exists>w \<in> set (inputWires (s ! c)). \<exists>n. chain s (fromComponent w) n \<and> r = 1 + int n)"
    and all: "\<forall>w \<in> set (inputWires (s ! c)). \<forall>n. chain s (fromComponent w) n \<longrightarrow> 1 + int n \<le> r"
    by blast
  have 1: "chain s c (nat r)"
  proof (cases "r = 0")
    case True
    then show ?thesis by (simp add: chain_here)
  next
    case False
    with wit obtain w n where "w \<in> set (inputWires (s ! c))" "chain s (fromComponent w) n"
      "r = 1 + int n" by blast
    then show ?thesis
      using chain_wire [of w s c n] by (simp add: nat_add_distrib)
  qed
  have 2: "n \<le> nat r" if "chain s c n" for n
    using that
  proof (cases rule: chain.cases)
    case chain_here
    then show ?thesis by simp
  next
    case (chain_wire w m)
    with all have "1 + int m \<le> r" by blast
    with chain_wire show ?thesis by simp
  qed
  show ?case
    using r ge 1 2 by (intro exI [of _ "nat r"]) (simp add: longestChain_def)
qed

lemma GetCircuitPosition_acyclic:
  assumes "acyclic_by s rank"
  shows "\<exists>d. GetCircuitPosition s c offset = Some (offset + int d) \<and> longestChain s c d"
  using GetCircuitPosition_loop_acyclic [OF assms, of c]
  by (auto simp: GetCircuitPosition_def)

section \<open>The two halves of a tick, and runs of the second half\<close>

text \<open>
  \<open>bufferCounts\<close>: how many input and output buses each component has. \<open>pullPhase\<close>:
  the first half of \<open>_DoTick\<close>, in which the inputs are pulled. \<open>processRun\<close>: the
  second half of \<open>_DoTick\<close> on one component, for a sequence of buffers, until one
  stops. \<open>nextBuffer\<close>: the buffer after \<open>b\<close>, cyclically.
\<close>

definition bufferCounts :: "('v, 'u) store \<Rightarrow> (nat \<times> nat) list" where
  "bufferCounts s = map (\<lambda>k. (length (inputBuses k), length (outputBuses k))) s"

lemma bufferCounts_length: "bufferCounts s' = bufferCounts s \<Longrightarrow> length s' = length s"
  unfolding bufferCounts_def by (rule map_eq_imp_length_eq)

lemma bufferCounts_nth:
  "bufferCounts s' = bufferCounts s \<Longrightarrow> c < length s \<Longrightarrow>
     length (inputBuses (s' ! c)) = length (inputBuses (s ! c)) \<and>
     length (outputBuses (s' ! c)) = length (outputBuses (s ! c))"
  unfolding bufferCounts_def
  by (metis (mono_tags, lifting) length_map nth_map prod.inject)

lemma bufferCounts_update:
  "length (inputBuses k) = length (inputBuses (s ! c)) \<Longrightarrow>
   length (outputBuses k) = length (outputBuses (s ! c)) \<Longrightarrow>
   bufferCounts (s[c := k]) = bufferCounts s"
  unfolding bufferCounts_def by (rule map_update_same) simp

lemma bufferCounts_GetOutput:
  "length (outputBuses (fst (GetOutput k b fromOut toIn toBus))) = length (outputBuses k) \<and>
   length (inputBuses (fst (GetOutput k b fromOut toIn toBus))) = length (inputBuses k)"
  by (simp add: GetOutput_def Let_def setRef_def moveOut_def setOutputCell_def split: prod.splits)

lemma bufferCounts_pull [simp]: "bufferCounts (pull s c b w) = bufferCounts s"
proof -
  obtain k bus where g: "GetOutput (s ! fromComponent w) b (fromOutput w) (toInput w)
      (inputBuses (s ! c) ! b) = (k, bus)"
    by (cases "GetOutput (s ! fromComponent w) b (fromOutput w) (toInput w) (inputBuses (s ! c) ! b)")
  have k: "length (outputBuses k) = length (outputBuses (s ! fromComponent w))"
    "length (inputBuses k) = length (inputBuses (s ! fromComponent w))"
    using bufferCounts_GetOutput [of "s ! fromComponent w" b "fromOutput w" "toInput w"
        "inputBuses (s ! c) ! b"] g by simp_all
  have 1: "bufferCounts (s[fromComponent w := k]) = bufferCounts s"
    by (rule bufferCounts_update) (simp_all add: k)
  show ?thesis
    unfolding pull_def g Let_def prod.case
    by (subst bufferCounts_update) (simp_all add: 1)
qed

lemma bufferCounts_setStatus [simp]: "bufferCounts (setStatus s c b st) = bufferCounts s"
  unfolding setStatus_def by (rule bufferCounts_update) simp_all

lemma bufferCounts_TickAsync [simp]: "bufferCounts (TickAsync s c b) = bufferCounts s"
  unfolding TickAsync_def by (rule bufferCounts_update) simp_all

lemma bufferCounts_addFeedback [simp]: "bufferCounts (addFeedback s c b i) = bufferCounts s"
  unfolding addFeedback_def by (rule bufferCounts_update) simp_all

lemma bufferCounts_eraseFeedback [simp]: "bufferCounts (eraseFeedback s c b i) = bufferCounts s"
  unfolding eraseFeedback_def by (rule bufferCounts_update) simp_all

lemma bufferCounts_callProcess:
  "length (inputBuses (callProcess k b)) = length (inputBuses k) \<and>
   length (outputBuses (callProcess k b)) = length (outputBuses k)"
  by (simp add: callProcess_def Let_def split: prod.splits)

lemma bufferCounts_DoTick_process:
  "DoTick_process s c b = Inr s' \<Longrightarrow> bufferCounts s' = bufferCounts s"
  by (auto simp: DoTick_process_def Let_def clearOutputs_def WaitForRelease_def ReleaseThread_def
      bufferCounts_callProcess split: if_splits option.splits intro!: bufferCounts_update)

lemma bufferCounts_DoTick_pool_loop:
  "DoTick_pool_loop s c b i ws = Inr s' \<Longrightarrow> bufferCounts s' = bufferCounts s"
  by (induction s c b i ws rule: DoTick_pool_loop.induct) (auto split: if_splits)

lemma bufferCounts_Tick:
  shows "Tick s c b = Inr (r, s') \<Longrightarrow> bufferCounts s' = bufferCounts s"
    and "Tick_loop s c b i ws = Inr s' \<Longrightarrow> bufferCounts s' = bufferCounts s"
    and "DoTick s c b = Inr s' \<Longrightarrow> bufferCounts s' = bufferCounts s"
    and "DoTick_loop s c b ws = Inr s' \<Longrightarrow> bufferCounts s' = bufferCounts s"
proof (induct s c b and s c b i ws and s c b and s c b ws arbitrary: r s' and s' and s' and s'
    rule: Tick_Tick_loop_DoTick_DoTick_loop.induct)
  case (1 s c b)
  show ?case
  proof (cases "c < length s \<and> b < length (tickStatuses (s ! c)) \<and>
      tickStatuses (s ! c) ! b = NotTicked")
    case False
    with "1.prems" show ?thesis
      by (auto simp: Tick.simps [of s c b] split: if_splits)
  next
    case nt: True
    show ?thesis
    proof (cases "threadPool (s ! c) \<noteq> None")
      case True
      with "1.prems" nt obtain s2 where
        s2: "Tick_loop (setStatus s c b TickStarted) c b 0 (inputWires (s ! c)) = Inr s2"
        and s': "s' = TickAsync (setStatus s2 c b Ticking) c b"
        by (auto simp: Tick.simps [of s c b] split: sum.splits)
      have "bufferCounts s2 = bufferCounts (setStatus s c b TickStarted)"
        using "1.hyps"(1) nt True s2 by blast
      then show ?thesis by (simp add: s')
    next
      case False
      with "1.prems" nt have
        "DoTick (setStatus (setStatus s c b TickStarted) c b Ticking) c b = Inr s'"
        by (auto simp: Tick.simps [of s c b] split: sum.splits)
      then have "bufferCounts s' = bufferCounts (setStatus (setStatus s c b TickStarted) c b Ticking)"
        using "1.hyps"(2) nt False by blast
      then show ?thesis by simp
    qed
  qed
next
  case (2 s c b i)
  then show ?case by simp
next
  case (3 s c b i w ws)
  from "3.prems" obtain r1 s1 where t: "Tick s (fromComponent w) b = Inr (r1, s1)"
    and l: "Tick_loop (if r1 then s1 else addFeedback s1 c b i) c b (Suc i) ws = Inr s'"
    by (auto split: sum.splits)
  have "bufferCounts s1 = bufferCounts s" using "3.hyps"(1) t by blast
  moreover have "bufferCounts s' = bufferCounts (if r1 then s1 else addFeedback s1 c b i)"
    using "3.hyps"(2) [OF t refl l] .
  ultimately show ?case by (simp split: if_splits)
next
  case (4 s c b)
  show ?case
  proof (cases "threadPool (s ! c) \<noteq> None")
    case True
    with "4.prems" obtain s1 where "DoTick_pool_loop s c b 0 (inputWires (s ! c)) = Inr s1"
      "DoTick_process s1 c b = Inr s'"
      by (auto simp: DoTick.simps [of s c b] split: sum.splits)
    then show ?thesis
      using bufferCounts_DoTick_process bufferCounts_DoTick_pool_loop by metis
  next
    case False
    with "4.prems" obtain s1 where l: "DoTick_loop s c b (inputWires (s ! c)) = Inr s1"
      and p: "DoTick_process s1 c b = Inr s'"
      by (auto simp: DoTick.simps [of s c b] split: sum.splits)
    have "bufferCounts s1 = bufferCounts s"
      using "4.hyps" False l by blast
    then show ?thesis
      using bufferCounts_DoTick_process [OF p] by simp
  qed
next
  case (5 s c b)
  then show ?case by simp
next
  case (6 s c b w ws)
  from "6.prems" obtain r1 s1 where t: "Tick s (fromComponent w) b = Inr (r1, s1)"
    and l: "DoTick_loop (pull s1 c b w) c b ws = Inr s'"
    by (auto split: sum.splits)
  have "bufferCounts s1 = bufferCounts s" using "6.hyps"(1) t by blast
  moreover have "bufferCounts s' = bufferCounts (pull s1 c b w)"
    using "6.hyps"(2) [OF t refl l] .
  ultimately show ?case by simp
qed

definition pullPhase :: "('v, 'u) store \<Rightarrow> nat \<Rightarrow> nat \<Rightarrow> stop + ('v, 'u) store" where
  "pullPhase s c b =
     (if threadPool (s ! c) \<noteq> None then DoTick_pool_loop s c b 0 (inputWires (s ! c))
      else DoTick_loop s c b (inputWires (s ! c)))"

lemma DoTick_phases:
  "DoTick s c b = (case pullPhase s c b of Inl e \<Rightarrow> Inl e | Inr s1 \<Rightarrow> DoTick_process s1 c b)"
  by (simp add: DoTick.simps pullPhase_def)

lemma bufferCounts_pullPhase: "pullPhase s c b = Inr s1 \<Longrightarrow> bufferCounts s1 = bufferCounts s"
  by (auto simp: pullPhase_def bufferCounts_Tick(4) bufferCounts_DoTick_pool_loop split: if_splits)

lemma DoTick_process_log:
  assumes "c < length s" and "b < length (outputBuses (s ! c))"
    and "DoTick_process s c b = Inr s'"
  shows "\<exists>e. processLog (s' ! c) = processLog (s ! c) @ [e] \<and> callBuffer e = b \<and>
           callInputs e = inputBuses (s ! c) ! b \<and>
           callOutputsBefore e = ClearAllValues (outputBuses (s ! c) ! b)"
  using assms
  by (auto simp: DoTick_process_def Let_def clearOutputs_def WaitForRelease_def ReleaseThread_def
      callProcess_def split: if_splits option.splits prod.splits)








section \<open>A component wired to itself\<close>





lemma callProcess_fields [simp]:
  "componentThreads (callProcess k b) = componentThreads k"
  "refs (callProcess k b) = refs k"
  "feedbackWires (callProcess k b) = feedbackWires k"
  "Process (callProcess k b) = Process k"
  by (simp_all add: callProcess_def split: prod.splits)

lemma clearOutputs_fields [simp]:
  "componentThreads (clearOutputs k b) = componentThreads k"
  "inputBuses (clearOutputs k b) = inputBuses k"
  by (simp_all add: clearOutputs_def)




section \<open>The counters during a tick\<close>



















definition refsWires :: "('v, 'u) store \<Rightarrow> (Wire list \<times> (int \<times> int) list list) list" where
  "refsWires s = map (\<lambda>k. (inputWires k, refs k)) s"

lemma refsWires_update:
  "inputWires k = inputWires (s ! c) \<Longrightarrow> refs k = refs (s ! c) \<Longrightarrow>
     refsWires (s[c := k]) = refsWires s"
  unfolding refsWires_def by (rule map_update_same) simp


lemma refsWires_setStatus [simp]: "refsWires (setStatus s c b st) = refsWires s"
  unfolding setStatus_def by (rule refsWires_update) simp_all

lemma refsWires_TickAsync [simp]: "refsWires (TickAsync s c b) = refsWires s"
  unfolding TickAsync_def by (rule refsWires_update) simp_all

lemma refsWires_addFeedback [simp]: "refsWires (addFeedback s c b i) = refsWires s"
  unfolding addFeedback_def by (rule refsWires_update) simp_all

lemma refsWires_eraseFeedback [simp]: "refsWires (eraseFeedback s c b i) = refsWires s"
  unfolding eraseFeedback_def by (rule refsWires_update) simp_all















section \<open>What the initialisation loop of SetThreadPool leaves\<close>

lemma init_lengths [simp]:
  "length (tickStatuses (SetThreadPool_init k is)) = length (tickStatuses k)"
  "length (releaseFlags (SetThreadPool_init k is)) = length (releaseFlags k)"
  "length (refs (SetThreadPool_init k is)) = length (refs k)"
  by (induction k "is" rule: SetThreadPool_init.induct) simp_all

lemma init_tickStatuses:
  "j < length (tickStatuses k) \<Longrightarrow>
     tickStatuses (SetThreadPool_init k is) ! j = (if j \<in> set is then NotTicked else tickStatuses k ! j)"
  by (induction k "is" rule: SetThreadPool_init.induct) (auto simp: nth_list_update)

lemma init_releaseFlags:
  "j < length (releaseFlags k) \<Longrightarrow>
     releaseFlags (SetThreadPool_init k is) ! j = (if j \<in> set is then False else releaseFlags k ! j)"
  by (induction k "is" rule: SetThreadPool_init.induct) (auto simp: nth_list_update)

lemma init_refs:
  "j < length (refs k) \<Longrightarrow>
     refs (SetThreadPool_init k is) ! j = (if j \<in> set is then refs k ! 0 else refs k ! j)"
proof (induction k "is" arbitrary: j rule: SetThreadPool_init.induct)
  case (1 k)
  then show ?case by simp
next
  case (2 k i "is")
  let ?k' = "k\<lparr>tickStatuses := (tickStatuses k)[i := NotTicked],
          inputBuses := (inputBuses k)[i := SetSignalCount (inputBuses k ! i)
                                               (GetSignalCount (inputBuses k ! 0))],
          outputBuses := (outputBuses k)[i := SetSignalCount (outputBuses k ! i)
                                                 (GetSignalCount (outputBuses k ! 0))],
          releaseFlags := (releaseFlags k)[i := False],
          refs := (refs k)[i := refs k ! 0]\<rparr>"
  have 0: "refs ?k' ! 0 = refs k ! 0"
    using "2.prems" by (cases "i = 0") (simp_all)
  have "refs (SetThreadPool_init ?k' is) ! j = (if j \<in> set is then refs ?k' ! 0 else refs ?k' ! j)"
    using "2.prems" by (intro "2.IH") simp
  then show ?case
    using "2.prems" 0 by (auto simp: nth_list_update)
qed

lemma init_other [simp]:
  "bufferCount (SetThreadPool_init k is) = bufferCount k"
  "threadPool (SetThreadPool_init k is) = threadPool k"
  "inputWires (SetThreadPool_init k is) = inputWires k"
  by (induction k "is" rule: SetThreadPool_init.induct) simp_all


section \<open>Test stores\<close>

lemma newComponent_eq:
  "newComponent order proc u =
     \<lparr>processOrder = order, bufferCount = 1, inputBuses = [[]], outputBuses = [[]], refs = [[]],
      inputWires = [], componentThreads = [False], feedbackWires = [{}],
      tickStatuses = [NotTicked], releaseFlags = [True], threadPool = None, Process = proc,
      userState = u, processLog = [],
        spuriousWake = (\<lambda>b. False)\<rparr>"
  by (simp add: newComponent_def SetThreadPool_def resize_def Let_def SetSignalCount_def
      GetSignalCount_def)

lemma PassThrough_eq:
  "PassThrough =
     \<lparr>processOrder = OutOfOrder, bufferCount = 1, inputBuses = [[None]], outputBuses = [[None]],
      refs = [[(0, 0)]],
      inputWires = [], componentThreads = [False], feedbackWires = [{}],
      tickStatuses = [NotTicked], releaseFlags = [True], threadPool = None,
      Process = PassThrough_Process, userState = (), processLog = [],
        spuriousWake = (\<lambda>b. False)\<rparr>"
  by (simp add: PassThrough_def newComponent_eq SetInputCount_def SetOutputCount_def
      SetSignalCount_def resize_def)

text \<open>
  Three pass-through components, the first caught in the middle of starting its tick,
  the second already ticking, the third not ticked.
\<close>

definition threeStatuses :: "(int, unit) store" where
  "threeStatuses =
     [PassThrough\<lparr>tickStatuses := [TickStarted]\<rparr>, PassThrough\<lparr>tickStatuses := [Ticking]\<rparr>,
      PassThrough]"

lemma tickable_threeStatuses: "tickable threeStatuses 0"
  by (simp add: tickable_def threeStatuses_def PassThrough_eq canProcess_def All_less_Suc
      numeral_3_eq_3)

text \<open>A pass-through component holding 5 on its output, read by two wires.\<close>

definition holdingFive :: "(int, unit) Component" where
  "holdingFive = PassThrough\<lparr>outputBuses := [[Some 5]], refs := [[(2, 0)]]\<rparr>"

text \<open>One pass-through component whose output is wired to its own input.\<close>

definition selfLoop :: "(int, unit) store" where
  "selfLoop =
     [PassThrough\<lparr>refs := [[(1, 0)]],
                  inputWires := [\<lparr>fromComponent = 0, fromOutput = 0, toInput = 0\<rparr>]\<rparr>]"

lemma inputWires_selfLoop:
  "inputWires (selfLoop ! 0) = [\<lparr>fromComponent = 0, fromOutput = 0, toInput = 0\<rparr>]"
  by (simp add: selfLoop_def)

lemma GetCircuitPosition_loop_selfLoop:
  assumes a: "GetCircuitPosition_loop s ws furthestPos = Some y"
  shows "\<not> (s = selfLoop \<and> ws = inputWires (selfLoop ! 0))"
proof (rule GetCircuitPosition_loop.raw_induct [OF _ a])
  fix f :: "(int, unit) store \<Rightarrow> Wire list \<Rightarrow> int \<Rightarrow> int option"
  fix s ws furthestPos y
  assume IH: "\<And>s ws furthestPos y. f s ws furthestPos = Some y \<Longrightarrow>
      \<not> (s = selfLoop \<and> ws = inputWires (selfLoop ! 0))"
    and body: "(case ws of [] \<Rightarrow> Some furthestPos
      | w # ws' \<Rightarrow>
          Option.bind (f s (inputWires (s ! fromComponent w)) 0)
            (\<lambda>inner. let pos = 1 + inner
                      in f s ws' (if furthestPos < pos then pos else furthestPos))) = Some y"
  show "\<not> (s = selfLoop \<and> ws = inputWires (selfLoop ! 0))"
  proof
    assume "s = selfLoop \<and> ws = inputWires (selfLoop ! 0)"
    with body obtain inner where "f selfLoop (inputWires (selfLoop ! 0)) 0 = Some inner"
      by (auto simp: inputWires_selfLoop bind_eq_Some_conv)
    with IH show False by blast
  qed
qed

text \<open>Two pass-through components, not wired.\<close>

definition twoPass :: "(int, unit) store" where
  "twoPass = [PassThrough, PassThrough]"

lemma twoPass_nth: "twoPass ! 0 = PassThrough" "twoPass ! 1 = PassThrough" "length twoPass = 2"
  by (simp_all add: twoPass_def)

lemma totalsMatch_twoPass: "totalsMatch twoPass"
  by (simp add: totalsMatch_def twoPass_def PassThrough_eq fanOut_def less_Suc_eq
      numeral_2_eq_2)


text \<open>A pool of three buffers with no threads: three buffers, run synchronously.\<close>

definition threeBuffers :: ThreadPool where
  "threeBuffers = \<lparr>GetBufferCount = 3, GetThreadsPerBuffer = 0\<rparr>"

text \<open>
  A component that is ticking with 3 on its input and 5 on its output, and an in-order
  pass-through component configured with three buffers.
\<close>

definition heldInput :: "(int, unit) store" where
  "heldInput = [holdingFive\<lparr>inputBuses := [[Some 3]], tickStatuses := [Ticking]\<rparr>]"





text \<open>A component that adds what it reads on input 1 to its count of calls.\<close>

definition Accumulator_Process ::
  "int \<Rightarrow> int SignalBus \<Rightarrow> int SignalBus \<Rightarrow> int \<times> int SignalBus \<times> int SignalBus" where
  "Accumulator_Process u inputs outputs =
     (u + 1, inputs,
      SetSignal outputs 0 (Some (u + (case GetSignal inputs 1 of None \<Rightarrow> 0 | Some v \<Rightarrow> v))))"

definition Accumulator :: "(int, int) Component" where
  "Accumulator = SetOutputCount (SetInputCount (newComponent OutOfOrder Accumulator_Process 1) 2) 1"

definition feedbackAccumulator :: "(int, int) Component" where
  "feedbackAccumulator =
     Accumulator\<lparr>refs := [[(1, 0)]],
                 inputWires := [\<lparr>fromComponent = 0, fromOutput = 0, toInput = 1\<rparr>]\<rparr>"

lemma Accumulator_eq:
  "Accumulator =
     \<lparr>processOrder = OutOfOrder, bufferCount = 1, inputBuses = [[None, None]],
      outputBuses = [[None]], refs = [[(0, 0)]],
      inputWires = [], componentThreads = [False], feedbackWires = [{}],
      tickStatuses = [NotTicked], releaseFlags = [True], threadPool = None,
      Process = Accumulator_Process, userState = 1, processLog = [],
        spuriousWake = (\<lambda>b. False)\<rparr>"
  by (simp add: Accumulator_def newComponent_eq SetInputCount_def SetOutputCount_def
      SetSignalCount_def resize_def numeral_2_eq_2)

lemma feedbackAccumulator_wired:
  "ConnectInput [Accumulator] 0 0 0 1 = Inr (True, [feedbackAccumulator])"
  by (simp add: ConnectInput_def DisconnectInput_def IncRefs_def Accumulator_eq
      feedbackAccumulator_def GetOutputCount_def GetInputCount_def GetSignalCount_def
      setInputWires_def rowsHave_def addRef_def Let_def)









section \<open>The claims\<close>

text \<open>
  C1. \<open>Tick\<close> on buffer \<open>b\<close> of a component returns false exactly when the status of
  the component on that buffer is \<open>TickStarted\<close> at the call, and then the store is
  returned as it was, the log of \<open>Process_\<close> calls included. With the status
  \<open>Ticking\<close> it returns true, again with the store as it was. With the status
  \<open>NotTicked\<close> a call that returns returns true, and in a tickable store it returns.
\<close>

theorem Tick_false_iff_TickStarted:
  assumes "c < length s" and "b < length (tickStatuses (s ! c))"
  shows "(tickStatuses (s ! c) ! b = TickStarted \<longrightarrow> Tick s c b = Inr (False, s)) \<and>
         (tickStatuses (s ! c) ! b = Ticking \<longrightarrow> Tick s c b = Inr (True, s)) \<and>
         (tickStatuses (s ! c) ! b = NotTicked \<longrightarrow>
            (\<forall>r s'. Tick s c b = Inr (r, s') \<longrightarrow> r) \<and>
            (tickable s b \<longrightarrow> (\<exists>s'. Tick s c b = Inr (True, s'))))"
proof (intro conjI impI allI)
  assume "tickStatuses (s ! c) ! b = TickStarted"
  with assms show "Tick s c b = Inr (False, s)"
    by (simp add: Tick.simps)
next
  assume "tickStatuses (s ! c) ! b = Ticking"
  with assms show "Tick s c b = Inr (True, s)"
    by (simp add: Tick.simps)
next
  fix r s'
  assume "tickStatuses (s ! c) ! b = NotTicked" and "Tick s c b = Inr (r, s')"
  with assms show r
    by (auto simp: Tick.simps split: if_splits sum.splits)
next
  assume "tickStatuses (s ! c) ! b = NotTicked" and "tickable s b"
  with assms Tick_returns_aux(1) [of s b c] show "\<exists>s'. Tick s c b = Inr (True, s')"
    by auto
qed

theorem Tick_false_iff_TickStarted_witness:
  "Tick threeStatuses 0 0 = Inr (False, threeStatuses) \<and>
   Tick threeStatuses 1 0 = Inr (True, threeStatuses) \<and>
   (\<exists>s'. Tick threeStatuses 2 0 = Inr (True, s'))"
  using Tick_false_iff_TickStarted [of 0 threeStatuses 0]
    Tick_false_iff_TickStarted [of 1 threeStatuses 0]
    Tick_false_iff_TickStarted [of 2 threeStatuses 0] tickable_threeStatuses
  by (simp add: threeStatuses_def PassThrough_eq)

text \<open>
  C2. \<open>GetOutput\<close> from output \<open>fromOut\<close> of component \<open>k\<close> on buffer \<open>b\<close> into cell
  \<open>toIn\<close> of the bus \<open>toBus\<close>. With the output cell empty, the component and the bus
  are returned as they were. Otherwise the counter of the output is incremented; when
  the incremented counter differs from the total, it is stored, the signal is copied
  into the bus and the output bus stays as it was; when it equals the total, the counter
  is reset to 0 and the signal and the cell \<open>toIn\<close> of the bus are swapped.
\<close>

theorem GetOutput_cases:
  assumes "b < length (refs k)" and "b < length (outputBuses k)"
    and "nat fromOut < length (refs k ! b)"
  shows "let (k', bus') = GetOutput k b fromOut toIn toBus;
             cell = outputBuses k ! b ! nat fromOut;
             total = fst (refs k ! b ! nat fromOut);
             consumed = snd (refs k ! b ! nat fromOut)
         in (\<not> HasValue (outputBuses k ! b) fromOut \<longrightarrow> k' = k \<and> bus' = toBus) \<and>
            (HasValue (outputBuses k ! b) fromOut \<and> consumed + 1 \<noteq> total \<longrightarrow>
               refs k' ! b ! nat fromOut = (total, consumed + 1) \<and>
               bus' = SetSignal toBus toIn cell \<and> outputBuses k' = outputBuses k) \<and>
            (HasValue (outputBuses k ! b) fromOut \<and> consumed + 1 = total \<longrightarrow>
               refs k' ! b ! nat fromOut = (total, 0) \<and>
               (bus', outputBuses k' ! b ! nat fromOut) = MoveSignal toBus toIn cell)"
  using assms
  by (auto simp: GetOutput_def Let_def setRef_def moveOut_def setOutputCell_def GetSignal_def
      HasValue_def inRange_def GetSignalCount_def split: prod.splits)

theorem GetOutput_cases_witness:
  "HasValue (outputBuses holdingFive ! 0) 0 \<and>
   refs (fst (GetOutput holdingFive 0 0 0 [None])) ! 0 ! 0 = (2, 1) \<and>
   snd (GetOutput holdingFive 0 0 0 [None]) = [Some 5] \<and>
   outputBuses (fst (GetOutput holdingFive 0 0 0 [None])) = [[Some 5]]"
  using GetOutput_cases [of 0 holdingFive 0 0 "[None]"]
  by (simp add: holdingFive_def PassThrough_eq HasValue_def inRange_def GetSignalCount_def
      SetSignal_def split: prod.splits)

text \<open>
  C10. After \<open>SetThreadPool\<close> with any pool argument the buffer count is at least 1,
  the per-buffer vectors have that length, every buffer has the status \<open>NotTicked\<close>,
  every buffer has the totals of buffer 0, which are the totals buffer 0 had before the
  call when the component had a buffer at all, and the release flag of buffer 0 is the
  only one set.
\<close>

theorem SetThreadPool_buffers:
  "let k' = SetThreadPool k pool; n = nat (bufferCount k')
   in bufferCount k' \<ge> 1 \<and>
      length (tickStatuses k') = n \<and> length (refs k') = n \<and> length (releaseFlags k') = n \<and>
      (\<forall>i < n. tickStatuses k' ! i = NotTicked \<and>
                map fst (refs k' ! i) = map fst (refs k' ! 0) \<and>
                (releaseFlags k' ! i \<longleftrightarrow> i = 0)) \<and>
      (refs k \<noteq> [] \<longrightarrow> map fst (refs k' ! 0) = map fst (refs k ! 0))"
  by (cases pool)
    (auto simp: SetThreadPool_def Let_def resize_def init_tickStatuses init_releaseFlags init_refs
      nth_list_update nth_append)

theorem SetThreadPool_buffers_witness:
  "bufferCount (SetThreadPool holdingFive (Some threeBuffers)) = 3 \<and>
   tickStatuses (SetThreadPool holdingFive (Some threeBuffers)) = [NotTicked, NotTicked, NotTicked] \<and>
   map (map fst) (refs (SetThreadPool holdingFive (Some threeBuffers))) = [[2], [2], [2]] \<and>
   releaseFlags (SetThreadPool holdingFive (Some threeBuffers)) = [True, False, False]"
  using SetThreadPool_buffers [of holdingFive "Some threeBuffers"]
  by (simp add: SetThreadPool_def Let_def resize_def holdingFive_def PassThrough_eq
      threeBuffers_def upt_rec numeral_3_eq_3)

text \<open>
  C5. A sequence of wiring calls (\<open>ConnectInput\<close>, \<open>DisconnectInput\<close> by input,
  \<open>DisconnectInput\<close> by source, \<open>DisconnectAllInputs\<close>, in any order and on any
  components) that runs through keeps the totals matched: for every component, buffer
  and output, the stored total is the number of wires recorded anywhere in the store
  that come from that output of that component.
\<close>

theorem wiring_keeps_totals:
  assumes "totalsMatch s" and "wiringRun s xs = Inr s'"
  shows "totalsMatch s'"
  using assms
proof (induction xs arbitrary: s)
  case Nil
  then show ?case by simp
next
  case (Cons x xs)
  from Cons.prems(2) obtain s1 where s1: "wiringStep s x = Inr s1" and r: "wiringRun s1 xs = Inr s'"
    by (auto split: sum.splits)
  have "totalsMatch s1"
    using wiringStep_totals [OF Cons.prems(1) s1] by simp
  then show ?case
    using r by (rule Cons.IH)
qed

theorem wiring_keeps_totals_witness:
  "totalsMatch twoPass \<and>
   wiringRun twoPass [Connect 1 0 0 0, Connect 0 1 0 0, Disconnect 0 0, Connect 1 1 0 0] =
     Inr [PassThrough,
          PassThrough\<lparr>refs := [[(1, 0)]],
                       inputWires := [\<lparr>fromComponent = 1, fromOutput = 0, toInput = 0\<rparr>]\<rparr>] \<and>
   totalsMatch
     [PassThrough,
      PassThrough\<lparr>refs := [[(1, 0)]],
                   inputWires := [\<lparr>fromComponent = 1, fromOutput = 0, toInput = 0\<rparr>]\<rparr>]"
proof -
  have run: "wiringRun twoPass [Connect 1 0 0 0, Connect 0 1 0 0, Disconnect 0 0, Connect 1 1 0 0] =
     Inr [PassThrough,
          PassThrough\<lparr>refs := [[(1, 0)]],
                       inputWires := [\<lparr>fromComponent = 1, fromOutput = 0, toInput = 0\<rparr>]\<rparr>]"
    by (simp add: ConnectInput_def DisconnectInput_def IncRefs_def DecRefs_def twoPass_def
        PassThrough_eq GetOutputCount_def GetInputCount_def GetSignalCount_def
        setInputWires_def rowsHave_def addRef_def Let_def)
  show ?thesis
    using wiring_keeps_totals [OF totalsMatch_twoPass run] totalsMatch_twoPass run by simp
qed




text \<open>
  C6. \<open>GetCircuitPosition\<close> on a component whose output is wired to its own input
  never returns: the call on the source of the wire is the same call again.
\<close>

theorem GetCircuitPosition_selfLoop: "GetCircuitPosition selfLoop 0 0 = None"
proof (cases "GetCircuitPosition_loop selfLoop (inputWires (selfLoop ! 0)) 0")
  case None
  then show ?thesis by (simp add: GetCircuitPosition_def)
next
  case (Some y)
  then show ?thesis using GetCircuitPosition_loop_selfLoop by blast
qed

text \<open>
  C8. \<open>Reset\<close> on buffer \<open>b\<close> of a component does not return while the task of that
  component and buffer is with the pool. Otherwise it returns, every cell of the input
  bus of the buffer is empty and the bus has the width it had, the status is
  \<open>NotTicked\<close>, and the output buses, the reference counts, the log and every other
  component are as they were. In \<open>_DoTick\<close> the outputs are cleared after the inputs
  have been pulled and before \<open>Process_\<close> runs: the one call of \<open>Process_\<close> that
  \<open>_DoTick\<close> adds to the log of its component was handed the input bus as the pull
  phase left it and an output bus with every cell empty.
\<close>

theorem Reset_clears_inputs_only:
  assumes "c < length s" and "b < length (inputBuses (s ! c))"
    and "b < length (outputBuses (s ! c))" and "b < length (tickStatuses (s ! c))"
  shows "(componentThreads (s ! c) ! b \<longrightarrow> Reset s c b = Inl Blocked) \<and>
         (\<not> componentThreads (s ! c) ! b \<longrightarrow>
            (\<exists>s'. Reset s c b = Inr s' \<and> length s' = length s \<and>
               length (inputBuses (s' ! c) ! b) = length (inputBuses (s ! c) ! b) \<and>
               (\<forall>cell \<in> set (inputBuses (s' ! c) ! b). cell = None) \<and>
               tickStatuses (s' ! c) ! b = NotTicked \<and>
               outputBuses (s' ! c) = outputBuses (s ! c) \<and>
               refs (s' ! c) = refs (s ! c) \<and> processLog (s' ! c) = processLog (s ! c) \<and>
               (\<forall>i < length s. i \<noteq> c \<longrightarrow> s' ! i = s ! i))) \<and>
         (\<forall>s'. DoTick s c b = Inr s' \<longrightarrow>
            (\<exists>s1 e. pullPhase s c b = Inr s1 \<and>
               processLog (s' ! c) = processLog (s1 ! c) @ [e] \<and> callBuffer e = b \<and>
               callInputs e = inputBuses (s1 ! c) ! b \<and>
               callOutputsBefore e = ClearAllValues (outputBuses (s1 ! c) ! b) \<and>
               (\<forall>cell \<in> set (callOutputsBefore e). cell = None)))"
proof (intro conjI impI allI)
  assume "componentThreads (s ! c) ! b"
  then show "Reset s c b = Inl Blocked" by (simp add: Reset_def)
next
  assume "\<not> componentThreads (s ! c) ! b"
  with assms show "\<exists>s'. Reset s c b = Inr s' \<and> length s' = length s \<and>
      length (inputBuses (s' ! c) ! b) = length (inputBuses (s ! c) ! b) \<and>
      (\<forall>cell \<in> set (inputBuses (s' ! c) ! b). cell = None) \<and>
      tickStatuses (s' ! c) ! b = NotTicked \<and>
      outputBuses (s' ! c) = outputBuses (s ! c) \<and>
      refs (s' ! c) = refs (s ! c) \<and> processLog (s' ! c) = processLog (s ! c) \<and>
      (\<forall>i < length s. i \<noteq> c \<longrightarrow> s' ! i = s ! i)"
    by (simp add: Reset_def ClearAllValues_def)
next
  fix s'
  assume d: "DoTick s c b = Inr s'"
  then obtain s1 where s1: "pullPhase s c b = Inr s1" and p: "DoTick_process s1 c b = Inr s'"
    by (auto simp: DoTick_phases split: sum.splits)
  have "c < length s1" "b < length (outputBuses (s1 ! c))"
    using bufferCounts_pullPhase [OF s1] assms(1,3) bufferCounts_length bufferCounts_nth
    by metis+
  from DoTick_process_log [OF this p] obtain e where
    "processLog (s' ! c) = processLog (s1 ! c) @ [e]" "callBuffer e = b"
    "callInputs e = inputBuses (s1 ! c) ! b"
    "callOutputsBefore e = ClearAllValues (outputBuses (s1 ! c) ! b)"
    by blast
  moreover from this have "\<forall>cell \<in> set (callOutputsBefore e). cell = None"
    by (simp add: ClearAllValues_def)
  ultimately show "\<exists>s1 e. pullPhase s c b = Inr s1 \<and>
      processLog (s' ! c) = processLog (s1 ! c) @ [e] \<and> callBuffer e = b \<and>
      callInputs e = inputBuses (s1 ! c) ! b \<and>
      callOutputsBefore e = ClearAllValues (outputBuses (s1 ! c) ! b) \<and>
      (\<forall>cell \<in> set (callOutputsBefore e). cell = None)"
    using s1 by blast
qed

theorem Reset_clears_inputs_only_witness:
  "Reset heldInput 0 0 = Inr [holdingFive] \<and>
   map_sum id (\<lambda>s. processLog (s ! 0)) (DoTick heldInput 0 0) =
     Inr [\<lparr>callBuffer = 0, callInputs = [Some 3], callOutputsBefore = [None],
           callOutputsAfter = [Some 3], callReleaseFlags = [True]\<rparr>]"
  using Reset_clears_inputs_only [of 0 heldInput 0]
  by (simp add: heldInput_def holdingFive_def PassThrough_eq Reset_def DoTick.simps
      DoTick_process_def clearOutputs_def callProcess_def PassThrough_Process_def HasValue_def
      inRange_def GetSignalCount_def ClearAllValues_def MoveSignal_def GetSignal_def Let_def)









end
